theory Spec2Isabelle
  imports Complex_Main "HOL-Library.AList" "HOL-Library.Multiset"
begin

section \<open>Values, errors and the Python primitives the engine relies on\<close>

text \<open>
  A value of the engine is a Python object of one of five kinds: \<open>None\<close>, \<open>int\<close>,
  \<open>float\<close>, \<open>str\<close> or \<open>bool\<close>.  A float is represented by the real number it
  denotes (NaN and the infinities are outside the model); a string is a list of
  characters, and the character classes below are those of ASCII text.
\<close>

datatype val = Null | IntV int | RealV real | TextV string | BoolV bool

text \<open>
  \<open>TokenType\<close> is an enumeration; a member is represented by its name (members are
  compared by identity, which coincides with equality of names).
\<close>

type_synonym token_type = string

abbreviation T_SELECT :: token_type where "T_SELECT \<equiv> ''SELECT''"
abbreviation T_FROM :: token_type where "T_FROM \<equiv> ''FROM''"
abbreviation T_WHERE :: token_type where "T_WHERE \<equiv> ''WHERE''"
abbreviation T_INSERT :: token_type where "T_INSERT \<equiv> ''INSERT''"
abbreviation T_INTO :: token_type where "T_INTO \<equiv> ''INTO''"
abbreviation T_VALUES :: token_type where "T_VALUES \<equiv> ''VALUES''"
abbreviation T_UPDATE :: token_type where "T_UPDATE \<equiv> ''UPDATE''"
abbreviation T_SET :: token_type where "T_SET \<equiv> ''SET''"
abbreviation T_DELETE :: token_type where "T_DELETE \<equiv> ''DELETE''"
abbreviation T_CREATE :: token_type where "T_CREATE \<equiv> ''CREATE''"
abbreviation T_DROP :: token_type where "T_DROP \<equiv> ''DROP''"
abbreviation T_TABLE :: token_type where "T_TABLE \<equiv> ''TABLE''"
abbreviation T_IF :: token_type where "T_IF \<equiv> ''IF''"
abbreviation T_EXISTS :: token_type where "T_EXISTS \<equiv> ''EXISTS''"
abbreviation T_NOT :: token_type where "T_NOT \<equiv> ''NOT''"
abbreviation T_NULL :: token_type where "T_NULL \<equiv> ''NULL''"
abbreviation T_AND :: token_type where "T_AND \<equiv> ''AND''"
abbreviation T_OR :: token_type where "T_OR \<equiv> ''OR''"
abbreviation T_JOIN :: token_type where "T_JOIN \<equiv> ''JOIN''"
abbreviation T_INNER :: token_type where "T_INNER \<equiv> ''INNER''"
abbreviation T_LEFT :: token_type where "T_LEFT \<equiv> ''LEFT''"
abbreviation T_RIGHT :: token_type where "T_RIGHT \<equiv> ''RIGHT''"
abbreviation T_CROSS :: token_type where "T_CROSS \<equiv> ''CROSS''"
abbreviation T_ON :: token_type where "T_ON \<equiv> ''ON''"
abbreviation T_AS :: token_type where "T_AS \<equiv> ''AS''"
abbreviation T_ORDER :: token_type where "T_ORDER \<equiv> ''ORDER''"
abbreviation T_BY :: token_type where "T_BY \<equiv> ''BY''"
abbreviation T_ASC :: token_type where "T_ASC \<equiv> ''ASC''"
abbreviation T_DESC :: token_type where "T_DESC \<equiv> ''DESC''"
abbreviation T_LIMIT :: token_type where "T_LIMIT \<equiv> ''LIMIT''"
abbreviation T_OFFSET :: token_type where "T_OFFSET \<equiv> ''OFFSET''"
abbreviation T_PRIMARY :: token_type where "T_PRIMARY \<equiv> ''PRIMARY''"
abbreviation T_KEY :: token_type where "T_KEY \<equiv> ''KEY''"
abbreviation T_UNIQUE :: token_type where "T_UNIQUE \<equiv> ''UNIQUE''"
abbreviation T_IS :: token_type where "T_IS \<equiv> ''IS''"
abbreviation T_LIKE :: token_type where "T_LIKE \<equiv> ''LIKE''"
abbreviation T_TRUE :: token_type where "T_TRUE \<equiv> ''TRUE''"
abbreviation T_FALSE :: token_type where "T_FALSE \<equiv> ''FALSE''"
abbreviation T_INTEGER :: token_type where "T_INTEGER \<equiv> ''INTEGER''"
abbreviation T_INT :: token_type where "T_INT \<equiv> ''INT''"
abbreviation T_TEXT :: token_type where "T_TEXT \<equiv> ''TEXT''"
abbreviation T_VARCHAR :: token_type where "T_VARCHAR \<equiv> ''VARCHAR''"
abbreviation T_REAL :: token_type where "T_REAL \<equiv> ''REAL''"
abbreviation T_FLOAT :: token_type where "T_FLOAT \<equiv> ''FLOAT''"
abbreviation T_BOOLEAN :: token_type where "T_BOOLEAN \<equiv> ''BOOLEAN''"
abbreviation T_BOOL :: token_type where "T_BOOL \<equiv> ''BOOL''"
abbreviation T_NUMBER :: token_type where "T_NUMBER \<equiv> ''NUMBER''"
abbreviation T_STRING :: token_type where "T_STRING \<equiv> ''STRING''"
abbreviation T_IDENTIFIER :: token_type where "T_IDENTIFIER \<equiv> ''IDENTIFIER''"
abbreviation T_EQ :: token_type where "T_EQ \<equiv> ''EQ''"
abbreviation T_NE :: token_type where "T_NE \<equiv> ''NE''"
abbreviation T_LT :: token_type where "T_LT \<equiv> ''LT''"
abbreviation T_LE :: token_type where "T_LE \<equiv> ''LE''"
abbreviation T_GT :: token_type where "T_GT \<equiv> ''GT''"
abbreviation T_GE :: token_type where "T_GE \<equiv> ''GE''"
abbreviation T_STAR :: token_type where "T_STAR \<equiv> ''STAR''"
abbreviation T_PLUS :: token_type where "T_PLUS \<equiv> ''PLUS''"
abbreviation T_MINUS :: token_type where "T_MINUS \<equiv> ''MINUS''"
abbreviation T_SLASH :: token_type where "T_SLASH \<equiv> ''SLASH''"
abbreviation T_DOT :: token_type where "T_DOT \<equiv> ''DOT''"
abbreviation T_LPAREN :: token_type where "T_LPAREN \<equiv> ''LPAREN''"
abbreviation T_RPAREN :: token_type where "T_RPAREN \<equiv> ''RPAREN''"
abbreviation T_COMMA :: token_type where "T_COMMA \<equiv> ''COMMA''"
abbreviation T_SEMICOLON :: token_type where "T_SEMICOLON \<equiv> ''SEMICOLON''"
abbreviation T_EOF :: token_type where "T_EOF \<equiv> ''EOF''"
abbreviation T_NEWLINE :: token_type where "T_NEWLINE \<equiv> ''NEWLINE''"

text \<open>
  The message of a \<open>SQLSyntaxError\<close> is an f-string over token type names; the model
  keeps the data the message is built from.
\<close>

datatype syntax_msg =
    UnexpectedCharacter char
  | Expected token_type token_type
  | ExpectedDataType token_type
  | UnexpectedToken token_type

text \<open>
  The exception classes of \<open>exceptions.py\<close>, and the built-in Python exceptions that
  the code can let escape (\<open>TypeError\<close>, \<open>IndexError\<close>, \<open>KeyError\<close>, \<open>ValueError\<close>,
  \<open>OverflowError\<close>, \<open>AttributeError\<close>, \<open>re.error\<close>).
\<close>

datatype error =
    SQLSyntaxError syntax_msg nat nat
  | SemanticError
  | TableNotFoundError string
  | TableExistsError string
  | ColumnNotFoundError string "string option"
  | AmbiguousColumnError string
  | PrimaryKeyViolation string val
  | UniqueViolation string val
  | NotNullViolation string
  | DataTypeError string val "string option"
  | RDBMSError
  | PyTypeError
  | PyIndexError
  | PyKeyError
  | PyValueError
  | PyOverflowError
  | PyAttributeError
  | PyReError

text \<open>
  Built-in conversions of Python that the engine calls and that are not code of the
  repository: \<open>int(str)\<close>, \<open>float(str)\<close>, \<open>float(int)\<close>, \<open>str(value)\<close> and
  \<open>re.match(pattern, text, re.IGNORECASE)\<close>.  They are parameters of the model;
  \<open>None\<close> stands for the exception the built-in raises (\<open>ValueError\<close>,
  \<open>OverflowError\<close>, \<open>re.error\<close>).
\<close>

record py_builtins =
  py_int :: "string \<Rightarrow> int option"
  py_float :: "string \<Rightarrow> real option"
  py_float_of_int :: "int \<Rightarrow> real option"
  py_str :: "val \<Rightarrow> string"
  py_re_match :: "string \<Rightarrow> string \<Rightarrow> bool option"

subsection \<open>Character classes (ASCII)\<close>

definition isdigit :: "char \<Rightarrow> bool" where
  "isdigit c = (c \<in> set ''0123456789'')"

definition lower_letters :: string where
  "lower_letters = ''abcdefghijklmnopqrstuvwxyz''"

definition upper_letters :: string where
  "upper_letters = ''ABCDEFGHIJKLMNOPQRSTUVWXYZ''"

definition isalpha :: "char \<Rightarrow> bool" where
  "isalpha c = (c \<in> set lower_letters \<or> c \<in> set upper_letters)"

definition isalnum :: "char \<Rightarrow> bool" where
  "isalnum c = (isalpha c \<or> isdigit c)"

definition isspace :: "char \<Rightarrow> bool" where
  "isspace c = (c \<in> set [CHR '' '', CHR 0x09, CHR 0x0A, CHR 0x0B, CHR 0x0C, CHR 0x0D,
                           CHR 0x1C, CHR 0x1D, CHR 0x1E, CHR 0x1F])"

definition upper_char :: "char \<Rightarrow> char" where
  "upper_char c = (case map_of (zip lower_letters upper_letters) c of
                     Some u \<Rightarrow> u | None \<Rightarrow> c)"

definition lower_char :: "char \<Rightarrow> char" where
  "lower_char c = (case map_of (zip upper_letters lower_letters) c of
                     Some l \<Rightarrow> l | None \<Rightarrow> c)"

definition upper :: "string \<Rightarrow> string" where
  "upper s = map upper_char s"

definition lower :: "string \<Rightarrow> string" where
  "lower s = map lower_char s"

section \<open>Lexer (lexer.py)\<close>

datatype token = Token (tok_type: token_type) (tok_value: val) (tok_line: nat) (tok_column: nat)

definition KEYWORDS :: "(string \<times> token_type) list" where
  "KEYWORDS =
    [(''SELECT'', T_SELECT), (''FROM'', T_FROM), (''WHERE'', T_WHERE), (''INSERT'', T_INSERT),
     (''INTO'', T_INTO), (''VALUES'', T_VALUES), (''UPDATE'', T_UPDATE), (''SET'', T_SET),
     (''DELETE'', T_DELETE), (''CREATE'', T_CREATE), (''DROP'', T_DROP), (''TABLE'', T_TABLE),
     (''IF'', T_IF), (''EXISTS'', T_EXISTS), (''NOT'', T_NOT), (''NULL'', T_NULL),
     (''AND'', T_AND), (''OR'', T_OR), (''JOIN'', T_JOIN), (''INNER'', T_INNER),
     (''LEFT'', T_LEFT), (''RIGHT'', T_RIGHT), (''CROSS'', T_CROSS), (''ON'', T_ON),
     (''AS'', T_AS), (''ORDER'', T_ORDER), (''BY'', T_BY), (''ASC'', T_ASC),
     (''DESC'', T_DESC), (''LIMIT'', T_LIMIT), (''OFFSET'', T_OFFSET),
     (''PRIMARY'', T_PRIMARY), (''KEY'', T_KEY), (''UNIQUE'', T_UNIQUE), (''IS'', T_IS),
     (''LIKE'', T_LIKE), (''TRUE'', T_TRUE), (''FALSE'', T_FALSE),
     (''INTEGER'', T_INTEGER), (''INT'', T_INT), (''TEXT'', T_TEXT), (''VARCHAR'', T_VARCHAR),
     (''REAL'', T_REAL), (''FLOAT'', T_FLOAT), (''BOOLEAN'', T_BOOLEAN), (''BOOL'', T_BOOL)]"

text \<open>
  The lexer object holds \<open>text\<close>, \<open>pos\<close>, \<open>line\<close> and \<open>column\<close>.  The pair
  \<open>(text, pos)\<close> is represented by the unread suffix \<open>text[pos:]\<close>: every read of the
  source is \<open>text[pos]\<close> or \<open>text[pos + offset]\<close>.
\<close>

record lexer =
  text_rest :: string
  line :: nat
  column :: nat

definition Lexer :: "string \<Rightarrow> lexer" where
  "Lexer txt = \<lparr>text_rest = txt, line = 1, column = 1\<rparr>"

definition current_char :: "lexer \<Rightarrow> char option" where
  "current_char s = (case text_rest s of [] \<Rightarrow> None | c # _ \<Rightarrow> Some c)"

definition peek :: "lexer \<Rightarrow> nat \<Rightarrow> char option" where
  "peek s offset = (if offset < length (text_rest s) then Some (text_rest s ! offset) else None)"

definition advance :: "lexer \<Rightarrow> char option \<times> lexer" where
  "advance s =
     (let ch = current_char s;
          s1 = (if ch = Some (CHR 0x0A) then s\<lparr>line := line s + 1, column := 1\<rparr>
                else s\<lparr>column := column s + 1\<rparr>)
      in (ch, s1\<lparr>text_rest := drop 1 (text_rest s)\<rparr>))"

function skip_whitespace :: "lexer \<Rightarrow> lexer" where
  "skip_whitespace s =
     (case current_char s of
        None \<Rightarrow> s
      | Some c \<Rightarrow> if isspace c then skip_whitespace (snd (advance s)) else s)"
  by pat_completeness auto
termination
  by (relation "measure (\<lambda>s. length (text_rest s))")
     (auto simp: advance_def current_char_def Let_def split: list.splits)

declare skip_whitespace.simps [simp del]

text \<open>The loop of a \<open>--\<close> comment: advance to the end of the line.\<close>

function skip_line_comment :: "lexer \<Rightarrow> lexer" where
  "skip_line_comment s =
     (case current_char s of
        None \<Rightarrow> s
      | Some c \<Rightarrow> if c \<noteq> CHR 0x0A then skip_line_comment (snd (advance s)) else s)"
  by pat_completeness auto
termination
  by (relation "measure (\<lambda>s. length (text_rest s))")
     (auto simp: advance_def current_char_def Let_def split: list.splits)

declare skip_line_comment.simps [simp del]

text \<open>The loop of a block comment: advance to the closing \<open>*/\<close> or to the end of the text.\<close>

function skip_block_comment :: "lexer \<Rightarrow> lexer" where
  "skip_block_comment s =
     (case current_char s of
        None \<Rightarrow> s
      | Some c \<Rightarrow>
          if c = CHR ''*'' \<and> peek s 1 = Some (CHR ''/'')
          then snd (advance (snd (advance s)))
          else skip_block_comment (snd (advance s)))"
  by pat_completeness auto
termination
  by (relation "measure (\<lambda>s. length (text_rest s))")
     (auto simp: advance_def current_char_def Let_def split: list.splits)

declare skip_block_comment.simps [simp del]

definition skip_comment :: "lexer \<Rightarrow> bool \<times> lexer" where
  "skip_comment s =
     (if current_char s = Some (CHR ''-'') \<and> peek s 1 = Some (CHR ''-'')
      then (True, skip_line_comment s)
      else if current_char s = Some (CHR ''/'') \<and> peek s 1 = Some (CHR ''*'')
      then (True, skip_block_comment (snd (advance (snd (advance s)))))
      else (False, s))"

text \<open>The digit loop of \<open>read_number\<close>, carrying \<open>result\<close> and \<open>is_float\<close>.\<close>

function read_number_loop :: "lexer \<Rightarrow> string \<Rightarrow> bool \<Rightarrow> string \<times> bool \<times> lexer" where
  "read_number_loop s result is_float =
     (case current_char s of
        None \<Rightarrow> (result, is_float, s)
      | Some c \<Rightarrow>
          if isdigit c \<or> c = CHR ''.''
          then (if c = CHR ''.'' \<and> is_float then (result, is_float, s)
                else read_number_loop (snd (advance s)) (result @ [c])
                       (if c = CHR ''.'' then True else is_float))
          else (result, is_float, s))"
  by pat_completeness auto
termination
  by (relation "measure (\<lambda>(s, r, f). length (text_rest s))")
     (auto simp: advance_def current_char_def Let_def split: list.splits)

declare read_number_loop.simps [simp del]

definition read_number :: "py_builtins \<Rightarrow> lexer \<Rightarrow> error + (token \<times> lexer)" where
  "read_number py s =
     (let start_line = line s; start_col = column s;
          (result0, s0) = (if current_char s = Some (CHR ''-'')
                           then (''-'', snd (advance s)) else ('''', s));
          (result, is_float, s1) = read_number_loop s0 result0 False
      in if is_float
         then (case py_float py result of
                 None \<Rightarrow> Inl PyValueError
               | Some x \<Rightarrow> Inr (Token T_NUMBER (RealV x) start_line start_col, s1))
         else (case py_int py result of
                 None \<Rightarrow> Inl PyValueError
               | Some i \<Rightarrow> Inr (Token T_NUMBER (IntV i) start_line start_col, s1)))"

text \<open>
  The loop of \<open>read_string\<close>.  After a backslash the source appends
  \<open>self.current_char\<close> to \<open>result\<close>; at the end of the text that is \<open>None\<close> and the
  concatenation raises \<open>TypeError\<close>.
\<close>

function read_string_loop :: "char \<Rightarrow> lexer \<Rightarrow> string \<Rightarrow> error + (string \<times> lexer)" where
  "read_string_loop quote s result =
     (case current_char s of
        None \<Rightarrow> Inr (result, s)
      | Some c \<Rightarrow>
          if c = quote then
            (if peek s 1 = Some quote
             then read_string_loop quote (snd (advance (snd (advance s)))) (result @ [c])
             else Inr (result, snd (advance s)))
          else if c = CHR 0x5C then
            (let s1 = snd (advance s) in
             case current_char s1 of
               None \<Rightarrow> Inl PyTypeError
             | Some e \<Rightarrow>
                 read_string_loop quote (snd (advance s1))
                   (result @ [if e = CHR ''n'' then CHR 0x0A
                              else if e = CHR ''t'' then CHR 0x09
                              else if e = CHR 0x5C then CHR 0x5C
                              else if e = quote then quote
                              else e]))
          else read_string_loop quote (snd (advance s)) (result @ [c]))"
  by pat_completeness auto
termination
  by (relation "measure (\<lambda>(q, s, r). length (text_rest s))")
     (auto simp: advance_def current_char_def Let_def split: list.splits)

declare read_string_loop.simps [simp del]

definition read_string :: "lexer \<Rightarrow> error + (token \<times> lexer)" where
  "read_string s =
     (let start_line = line s; start_col = column s in
      case advance s of
        (None, _) \<Rightarrow> Inl PyTypeError
      | (Some quote, s1) \<Rightarrow>
          (case read_string_loop quote s1 '''' of
             Inl e \<Rightarrow> Inl e
           | Inr (result, s2) \<Rightarrow> Inr (Token T_STRING (TextV result) start_line start_col, s2)))"

function read_identifier_loop :: "lexer \<Rightarrow> string \<Rightarrow> string \<times> lexer" where
  "read_identifier_loop s result =
     (case current_char s of
        None \<Rightarrow> (result, s)
      | Some c \<Rightarrow>
          if isalnum c \<or> c = CHR ''_''
          then read_identifier_loop (snd (advance s)) (result @ [c])
          else (result, s))"
  by pat_completeness auto
termination
  by (relation "measure (\<lambda>(s, r). length (text_rest s))")
     (auto simp: advance_def current_char_def Let_def split: list.splits)

declare read_identifier_loop.simps [simp del]

definition read_identifier :: "lexer \<Rightarrow> token \<times> lexer" where
  "read_identifier s =
     (let start_line = line s; start_col = column s;
          (result, s1) = read_identifier_loop s ''''
      in case map_of KEYWORDS (upper result) of
           Some kw \<Rightarrow> (Token kw (TextV result) start_line start_col, s1)
         | None \<Rightarrow> (Token T_IDENTIFIER (TextV result) start_line start_col, s1))"


text \<open>The loop at the head of \<open>next_token\<close>: skip whitespace and comments.\<close>

lemma skip_whitespace_length:
  "length (text_rest (skip_whitespace s)) \<le> length (text_rest s)"
proof (induction s rule: skip_whitespace.induct)
  case (1 s)
  note eq = skip_whitespace.simps [of s]
  show ?case
  proof (cases "current_char s")
    case None
    then show ?thesis using eq by simp
  next
    case (Some c)
    show ?thesis
    proof (cases "isspace c")
      case True
      have "length (text_rest (snd (advance s))) \<le> length (text_rest s)"
        by (simp add: advance_def Let_def)
      with 1 [OF Some True] Some True show ?thesis using eq by simp
    next
      case False
      with Some show ?thesis using eq by simp
    qed
  qed
qed

lemma advance_length:
  "length (text_rest (snd (advance s))) = length (text_rest s) - 1"
  by (simp add: advance_def Let_def)

lemma current_char_Some_length:
  "current_char s = Some c \<Longrightarrow> 0 < length (text_rest s)"
  by (auto simp: current_char_def split: list.splits)

lemma skip_line_comment_length:
  "length (text_rest (skip_line_comment s)) \<le> length (text_rest s)"
proof (induction s rule: skip_line_comment.induct)
  case (1 s)
  note eq = skip_line_comment.simps [of s]
  show ?case
  proof (cases "current_char s")
    case None
    then show ?thesis using eq by simp
  next
    case (Some c)
    show ?thesis
    proof (cases "c \<noteq> CHR 0x0A")
      case True
      with 1 [OF Some True] Some show ?thesis using eq by (simp add: advance_length)
    next
      case False
      with Some show ?thesis using eq by simp
    qed
  qed
qed

lemma skip_block_comment_length:
  "length (text_rest (skip_block_comment s)) \<le> length (text_rest s)"
proof (induction s rule: skip_block_comment.induct)
  case (1 s)
  note eq = skip_block_comment.simps [of s]
  show ?case
  proof (cases "current_char s")
    case None
    then show ?thesis using eq by simp
  next
    case (Some c)
    show ?thesis
    proof (cases "c = CHR ''*'' \<and> peek s 1 = Some (CHR ''/'')")
      case True
      with Some show ?thesis using eq by (simp add: advance_length)
    next
      case False
      with 1 [OF Some False] Some show ?thesis using eq by (simp add: advance_length)
    qed
  qed
qed

lemma advance_length_less:
  "0 < length (text_rest s) \<Longrightarrow> length (text_rest (snd (advance s))) < length (text_rest s)"
  by (simp add: advance_length)

lemma skip_comment_length:
  assumes "skip_comment s = (True, s')"
  shows "length (text_rest s') < length (text_rest s)"
proof (cases "current_char s = Some (CHR ''-'') \<and> peek s 1 = Some (CHR ''-'')")
  case True
  then have s': "s' = skip_line_comment s" using assms by (simp add: skip_comment_def)
  have "skip_line_comment s = skip_line_comment (snd (advance s))"
    using True skip_line_comment.simps [of s] by simp
  then have "length (text_rest s') \<le> length (text_rest (snd (advance s)))"
    using skip_line_comment_length [of "snd (advance s)"] s' by simp
  moreover have "length (text_rest (snd (advance s))) < length (text_rest s)"
    using True current_char_Some_length advance_length_less by blast
  ultimately show ?thesis by (rule le_less_trans)
next
  case False
  then have c: "current_char s = Some (CHR ''/'')"
    and s': "s' = skip_block_comment (snd (advance (snd (advance s))))"
    using assms by (auto simp: skip_comment_def split: if_splits)
  have "length (text_rest s') \<le> length (text_rest (snd (advance (snd (advance s)))))"
    unfolding s' by (rule skip_block_comment_length)
  also have "\<dots> \<le> length (text_rest (snd (advance s)))"
    by (simp add: advance_length)
  also have "\<dots> < length (text_rest s)"
    using c current_char_Some_length advance_length_less by blast
  finally show ?thesis .
qed

lemma skip_blanks_step:
  "(b, s2) = skip_comment (skip_whitespace s) \<Longrightarrow> b
   \<Longrightarrow> length (text_rest s2) < length (text_rest s)"
  using skip_comment_length [of "skip_whitespace s" s2] skip_whitespace_length [of s]
  by simp

function skip_blanks :: "lexer \<Rightarrow> lexer" where
  "skip_blanks s =
     (let s1 = skip_whitespace s in
      case skip_comment s1 of
        (True, s2) \<Rightarrow> skip_blanks s2
      | (False, s2) \<Rightarrow> s2)"
  by pat_completeness auto
termination
  by (relation "measure (\<lambda>s. length (text_rest s))") (auto intro: skip_blanks_step)

declare skip_blanks.simps [simp del]

definition single_char_tokens :: "(char \<times> token_type) list" where
  "single_char_tokens =
     [(CHR ''='', T_EQ), (CHR ''<'', T_LT), (CHR ''>'', T_GT), (CHR ''*'', T_STAR),
      (CHR ''+'', T_PLUS), (CHR ''-'', T_MINUS), (CHR ''/'', T_SLASH), (CHR ''.'', T_DOT),
      (CHR ''('', T_LPAREN), (CHR '')'', T_RPAREN), (CHR '','', T_COMMA),
      (CHR '';'', T_SEMICOLON)]"

text \<open>
  \<open>next_token\<close> returns the token and the advanced lexer, or the exception raised.
\<close>

definition next_token :: "py_builtins \<Rightarrow> lexer \<Rightarrow> error + (token \<times> lexer)" where
  "next_token py s =
     (let s0 = skip_blanks s in
      case current_char s0 of
        None \<Rightarrow> Inr (Token T_EOF Null (line s0) (column s0), s0)
      | Some ch \<Rightarrow>
          let start_line = line s0; start_col = column s0 in
          if isdigit ch \<or> (ch = CHR ''-'' \<and> (case peek s0 1 of None \<Rightarrow> False | Some p \<Rightarrow> isdigit p))
          then read_number py s0
          else if ch = CHR 0x22 \<or> ch = CHR 0x27 then read_string s0
          else if isalpha ch \<or> ch = CHR ''_'' then Inr (read_identifier s0)
          else
            let two_char = ch # (case peek s0 1 of None \<Rightarrow> [] | Some p \<Rightarrow> [p]);
                s2 = snd (advance (snd (advance s0)))
            in if two_char = ''<>'' then Inr (Token T_NE (TextV ''<>'') start_line start_col, s2)
               else if two_char = ''!='' then Inr (Token T_NE (TextV ''!='') start_line start_col, s2)
               else if two_char = ''<='' then Inr (Token T_LE (TextV ''<='') start_line start_col, s2)
               else if two_char = ''>='' then Inr (Token T_GE (TextV ''>='') start_line start_col, s2)
               else (case map_of single_char_tokens ch of
                       Some tt \<Rightarrow> Inr (Token tt (TextV [ch]) start_line start_col, snd (advance s0))
                     | None \<Rightarrow> Inl (SQLSyntaxError (UnexpectedCharacter ch) start_line start_col)))"

lemma read_number_loop_length:
  "read_number_loop s r f = (r', f', s') \<Longrightarrow> length (text_rest s') \<le> length (text_rest s)"
proof (induction s r f rule: read_number_loop.induct)
  case (1 s result is_float)
  note eq = read_number_loop.simps [of s result is_float]
  show ?case
  proof (cases "current_char s")
    case None
    with "1.prems" show ?thesis using eq by simp
  next
    case (Some c)
    show ?thesis
    proof (cases "(isdigit c \<or> c = CHR ''.'') \<and> \<not> (c = CHR ''.'' \<and> is_float)")
      case True
      then have "read_number_loop (snd (advance s)) (result @ [c])
                   (if c = CHR ''.'' then True else is_float) = (r', f', s')"
        using "1.prems" Some eq by (auto split: if_splits)
      then have "length (text_rest s') \<le> length (text_rest (snd (advance s)))"
        using "1.IH" [OF Some] True by blast
      then show ?thesis using eq by (simp add: advance_length)
    next
      case False
      with "1.prems" Some show ?thesis using eq by (auto split: if_splits)
    qed
  qed
qed

lemma read_string_loop_length:
  "read_string_loop q s r = Inr (r', s') \<Longrightarrow> length (text_rest s') \<le> length (text_rest s)"
proof (induction q s r rule: read_string_loop.induct)
  case (1 quote s result)
  note eq = read_string_loop.simps [of quote s result]
  show ?case
  proof (cases "current_char s")
    case None
    with "1.prems" show ?thesis using eq by simp
  next
    case (Some c)
    consider (esc) "c = quote" "peek s 1 = Some quote"
      | (fin) "c = quote" "peek s 1 \<noteq> Some quote"
      | (bsl) "c \<noteq> quote" "c = CHR 0x5C"
      | (oth) "c \<noteq> quote" "c \<noteq> CHR 0x5C" by blast
    then show ?thesis
    proof cases
      case esc
      then have "read_string_loop quote (snd (advance (snd (advance s)))) (result @ [c]) = Inr (r', s')"
        using "1.prems" Some eq by simp
      then have "length (text_rest s') \<le> length (text_rest (snd (advance (snd (advance s)))))"
        using "1.IH"(1) [OF Some esc] by blast
      then show ?thesis using eq by (simp add: advance_length)
    next
      case fin
      then show ?thesis using eq "1.prems" Some by (auto simp: advance_length)
    next
      case bsl
      from bsl "1.prems" Some obtain e where e: "current_char (snd (advance s)) = Some e"
        using eq by (cases "current_char (snd (advance s))") (auto simp: Let_def)
      let ?x = "if e = CHR ''n'' then CHR 0x0A else if e = CHR ''t'' then CHR 0x09
                else if e = CHR 0x5C then CHR 0x5C else if e = quote then quote else e"
      have "read_string_loop quote (snd (advance (snd (advance s)))) (result @ [?x]) = Inr (r', s')"
        using "1.prems" Some bsl e eq by (simp add: Let_def)
      then have "length (text_rest s') \<le> length (text_rest (snd (advance (snd (advance s)))))"
        using "1.IH"(2) [OF Some bsl(1) bsl(2) refl e] by blast
      then show ?thesis using eq by (simp add: advance_length)
    next
      case oth
      then have "read_string_loop quote (snd (advance s)) (result @ [c]) = Inr (r', s')"
        using "1.prems" Some eq by simp
      then have "length (text_rest s') \<le> length (text_rest (snd (advance s)))"
        using "1.IH"(3) [OF Some oth] by blast
      then show ?thesis using eq by (simp add: advance_length)
    qed
  qed
qed

lemma read_identifier_loop_length:
  "read_identifier_loop s r = (r', s') \<Longrightarrow> length (text_rest s') \<le> length (text_rest s)"
proof (induction s r rule: read_identifier_loop.induct)
  case (1 s result)
  note eq = read_identifier_loop.simps [of s result]
  show ?case
  proof (cases "current_char s")
    case None
    with "1.prems" show ?thesis using eq by simp
  next
    case (Some c)
    show ?thesis
    proof (cases "isalnum c \<or> c = CHR ''_''")
      case True
      then have "read_identifier_loop (snd (advance s)) (result @ [c]) = (r', s')"
        using "1.prems" Some eq by simp
      then have "length (text_rest s') \<le> length (text_rest (snd (advance s)))"
        using "1.IH" [OF Some True] by blast
      then show ?thesis using eq by (simp add: advance_length)
    next
      case False
      with "1.prems" Some show ?thesis using eq by simp
    qed
  qed
qed

lemma read_number_length:
  assumes "read_number py s = Inr (tok, s')" "current_char s = Some c"
    "isdigit c \<or> c = CHR ''-''"
  shows "length (text_rest s') < length (text_rest s)"
proof -
  have pos: "0 < length (text_rest s)"
    using assms(2) by (rule current_char_Some_length)
  show ?thesis
  proof (cases "c = CHR ''-''")
    case True
    obtain r f s1 where l: "read_number_loop (snd (advance s)) ''-'' False = (r, f, s1)"
      by (cases "read_number_loop (snd (advance s)) ''-'' False") auto
    then have "s' = s1"
      using assms(1,2) True by (auto simp: read_number_def Let_def split: if_splits option.splits)
    then have "length (text_rest s') \<le> length (text_rest (snd (advance s)))"
      using read_number_loop_length [OF l] by simp
    then show ?thesis using advance_length_less [OF pos] by simp
  next
    case False
    then have d: "isdigit c" using assms(3) by simp
    obtain r f s1 where l: "read_number_loop s '''' False = (r, f, s1)"
      by (cases "read_number_loop s '''' False") auto
    then have s1: "s' = s1"
      using assms(1,2) False by (auto simp: read_number_def Let_def split: if_splits option.splits)
    have "c \<noteq> CHR ''.''" using d by (auto simp: isdigit_def)
    then have "read_number_loop s '''' False = read_number_loop (snd (advance s)) [c] False"
      using read_number_loop.simps [of s "''''" False] assms(2) d by simp
    then have "length (text_rest s1) \<le> length (text_rest (snd (advance s)))"
      using read_number_loop_length [of "snd (advance s)" "[c]" False r f s1] l by simp
    then show ?thesis using advance_length_less [OF pos] s1 by simp
  qed
qed

lemma read_string_length:
  assumes "read_string s = Inr (tok, s')"
  shows "length (text_rest s') < length (text_rest s)"
proof -
  obtain q where q: "current_char s = Some q"
    using assms by (cases "current_char s") (auto simp: read_string_def advance_def Let_def)
  then obtain r where l: "read_string_loop q (snd (advance s)) '''' = Inr (r, s')"
    using assms
    by (auto simp: read_string_def advance_def Let_def split: sum.splits prod.splits)
  have "length (text_rest s') \<le> length (text_rest (snd (advance s)))"
    using read_string_loop_length [OF l] .
  then show ?thesis
    using advance_length_less [OF current_char_Some_length [OF q]] by simp
qed

lemma read_identifier_length:
  assumes "read_identifier s = (tok, s')" "current_char s = Some c"
    "isalpha c \<or> c = CHR ''_''"
  shows "length (text_rest s') < length (text_rest s)"
proof -
  obtain r s1 where l: "read_identifier_loop s '''' = (r, s1)"
    by (cases "read_identifier_loop s ''''") auto
  then have s1: "s' = s1"
    using assms(1) by (auto simp: read_identifier_def Let_def split: option.splits)
  have "read_identifier_loop s '''' = read_identifier_loop (snd (advance s)) [c]"
    using read_identifier_loop.simps [of s "''''"] assms(2,3) by (auto simp: isalnum_def)
  then have "length (text_rest s1) \<le> length (text_rest (snd (advance s)))"
    using read_identifier_loop_length [of "snd (advance s)" "[c]" r s1] l by simp
  then show ?thesis
    using advance_length_less [OF current_char_Some_length [OF assms(2)]] s1 by simp
qed

lemma skip_blanks_length:
  "length (text_rest (skip_blanks s)) \<le> length (text_rest s)"
proof (induction s rule: skip_blanks.induct)
  case (1 s)
  obtain b s2 where sc: "skip_comment (skip_whitespace s) = (b, s2)"
    by (cases "skip_comment (skip_whitespace s)") auto
  show ?case
  proof (cases b)
    case True
    then have "skip_blanks s = skip_blanks s2"
      using skip_blanks.simps [of s] sc by simp
    moreover have "length (text_rest (skip_blanks s2)) \<le> length (text_rest s2)"
      using 1 [OF refl sc [symmetric]] True by simp
    moreover have "length (text_rest s2) < length (text_rest s)"
      using skip_blanks_step [of b s2 s] sc True by simp
    ultimately show ?thesis by simp
  next
    case False
    then have "skip_blanks s = s2" "s2 = skip_whitespace s"
      using skip_blanks.simps [of s] sc by (auto simp: skip_comment_def split: if_splits)
    then show ?thesis using skip_whitespace_length [of s] by simp
  qed
qed

lemma next_token_progress:
  assumes "next_token py s = Inr (tok, s')" "tok_type tok \<noteq> T_EOF"
  shows "length (text_rest s') < length (text_rest s)"
proof -
  let ?s0 = "skip_blanks s"
  have le: "length (text_rest ?s0) \<le> length (text_rest s)" by (rule skip_blanks_length)
  obtain ch where ch: "current_char ?s0 = Some ch"
    using assms by (cases "current_char ?s0") (auto simp: next_token_def Let_def)
  have pos: "0 < length (text_rest ?s0)" using ch by (rule current_char_Some_length)
  have a1: "length (text_rest (snd (advance ?s0))) < length (text_rest ?s0)"
    using advance_length_less [OF pos] .
  have a2: "length (text_rest (snd (advance (snd (advance ?s0))))) < length (text_rest ?s0)"
    using a1 by (simp add: advance_length)
  have "length (text_rest s') < length (text_rest ?s0)"
  proof (cases "isdigit ch \<or> (ch = CHR ''-'' \<and> (case peek ?s0 1 of None \<Rightarrow> False | Some p \<Rightarrow> isdigit p))")
    case True
    then have "read_number py ?s0 = Inr (tok, s')"
      using assms(1) ch by (auto simp: next_token_def Let_def split: if_splits)
    then show ?thesis using read_number_length [of py ?s0 tok s' ch] ch True by blast
  next
    case nonum: False
    show ?thesis
    proof (cases "ch = CHR 0x22 \<or> ch = CHR 0x27")
      case True
      then have "read_string ?s0 = Inr (tok, s')"
        using assms(1) ch nonum by (auto simp: next_token_def Let_def split: if_splits)
      then show ?thesis by (rule read_string_length)
    next
      case nostr: False
      show ?thesis
      proof (cases "isalpha ch \<or> ch = CHR ''_''")
        case True
        then have "read_identifier ?s0 = (tok, s')"
          using assms(1) ch nonum nostr by (auto simp: next_token_def Let_def split: if_splits)
        then show ?thesis using read_identifier_length [of ?s0 tok s' ch] ch True by blast
      next
        case False
        then have "s' = snd (advance ?s0) \<or> s' = snd (advance (snd (advance ?s0)))"
          using assms(1) ch nonum nostr
          by (auto simp: next_token_def Let_def split: if_splits option.splits)
        then show ?thesis using a1 a2 by auto
      qed
    qed
  qed
  then show ?thesis using le by simp
qed

function tokenize_loop :: "py_builtins \<Rightarrow> lexer \<Rightarrow> token list \<Rightarrow> error + token list" where
  "tokenize_loop py s tokens =
     (case next_token py s of
        Inl e \<Rightarrow> Inl e
      | Inr (tok, s') \<Rightarrow>
          if tok_type tok = T_EOF then Inr (tokens @ [tok])
          else tokenize_loop py s' (tokens @ [tok]))"
  by pat_completeness auto
termination
  by (relation "measure (\<lambda>(py, s, ts). length (text_rest s))")
     (auto intro: next_token_progress)

declare tokenize_loop.simps [simp del]

definition tokenize :: "py_builtins \<Rightarrow> lexer \<Rightarrow> error + token list" where
  "tokenize py s = tokenize_loop py s []"


lemmas char_class_defs =
  isdigit_def isalpha_def isalnum_def isspace_def lower_letters_def upper_letters_def
  upper_def upper_char_def lower_def lower_char_def

lemmas lexer_simps =
  tokenize_def tokenize_loop.simps next_token_def skip_blanks.simps skip_whitespace.simps
  skip_comment_def skip_line_comment.simps skip_block_comment.simps
  read_number_def read_number_loop.simps read_string_def read_string_loop.simps
  read_identifier_def read_identifier_loop.simps
  current_char_def peek_def advance_def Lexer_def Let_def
  KEYWORDS_def single_char_tokens_def char_class_defs

text \<open>
  Claim C10 (the part on unterminated string literals).  The claim says that a string
  literal whose closing quote is missing does not raise and produces a STRING token
  holding the rest of the input.  When the unterminated literal ends in a backslash,
  \<open>read_string\<close> advances past the backslash, finds \<open>current_char\<close> to be
  \<open>None\<close> and appends it to the result string: tokenization of the five characters
  quote, a, b, c, backslash raises \<open>TypeError\<close>, which is neither a STRING token nor
  a \<open>SQLSyntaxError\<close>.
\<close>

theorem C10_tokenize_dangling_backslash:
  "tokenize py (Lexer [CHR 0x27, CHR ''a'', CHR ''b'', CHR ''c'', CHR 0x5C]) = Inl PyTypeError"
  by (simp add: lexer_simps)

text \<open>
  Without the trailing backslash the unterminated literal is accepted, as the claim
  says: the STRING token holds the rest of the input and EOF follows.
\<close>

lemma tokenize_unterminated_example:
  "tokenize py (Lexer [CHR 0x27, CHR ''a'', CHR ''b'', CHR '' '', CHR ''c'']) =
     Inr [Token T_STRING (TextV ''ab c'') 1 1, Token T_EOF Null 1 6]"
  by (simp add: lexer_simps)

section \<open>Data types (datatypes.py)\<close>

datatype data_type = INTEGER | TEXT | REAL | BOOLEAN

definition type_map :: "(string \<times> data_type) list" where
  "type_map =
     [(''INTEGER'', INTEGER), (''INT'', INTEGER),
      (''TEXT'', TEXT), (''VARCHAR'', TEXT), (''STRING'', TEXT),
      (''REAL'', REAL), (''FLOAT'', REAL), (''DOUBLE'', REAL),
      (''BOOLEAN'', BOOLEAN), (''BOOL'', BOOLEAN)]"

definition from_string :: "string \<Rightarrow> error + data_type" where
  "from_string type_str =
     (case map_of type_map (upper type_str) of
        Some t \<Rightarrow> Inr t
      | None \<Rightarrow> Inl PyValueError)"

section \<open>Parser: CREATE TABLE (parser.py)\<close>

datatype column_def =
  ColumnDef (cd_name: string) (cd_data_type: string) (cd_primary_key: bool)
            (cd_unique: bool) (cd_not_null: bool)

datatype create_table_stmt =
  CreateTableStmt (ct_table_name: string) (ct_columns: "column_def list") (ct_if_not_exists: bool)

record parser =
  tokens :: "token list"
  pos :: nat

definition Parser :: "py_builtins \<Rightarrow> string \<Rightarrow> error + parser" where
  "Parser py txt =
     (case tokenize py (Lexer txt) of
        Inl e \<Rightarrow> Inl e
      | Inr ts \<Rightarrow> Inr \<lparr>tokens = ts, pos = 0\<rparr>)"

text \<open>
  \<open>current\<close> reads \<open>tokens[pos]\<close>, or \<open>tokens[-1]\<close> past the end; the latter raises
  \<open>IndexError\<close> on an empty token list.
\<close>

definition p_current :: "parser \<Rightarrow> error + token" where
  "p_current p =
     (if pos p \<ge> length (tokens p)
      then (if tokens p = [] then Inl PyIndexError else Inr (last (tokens p)))
      else Inr (tokens p ! pos p))"

definition p_advance :: "parser \<Rightarrow> error + (token \<times> parser)" where
  "p_advance p =
     (case p_current p of
        Inl e \<Rightarrow> Inl e
      | Inr tok \<Rightarrow>
          Inr (tok, if int (pos p) < int (length (tokens p)) - 1 then p\<lparr>pos := pos p + 1\<rparr> else p))"

definition p_match :: "parser \<Rightarrow> token_type list \<Rightarrow> error + bool" where
  "p_match p types =
     (case p_current p of
        Inl e \<Rightarrow> Inl e
      | Inr tok \<Rightarrow> Inr (tok_type tok \<in> set types))"

definition p_expect :: "parser \<Rightarrow> token_type \<Rightarrow> error + (token \<times> parser)" where
  "p_expect p token_type =
     (case p_current p of
        Inl e \<Rightarrow> Inl e
      | Inr tok \<Rightarrow>
          if tok_type tok \<noteq> token_type
          then Inl (SQLSyntaxError (Expected token_type (tok_type tok)) (tok_line tok) (tok_column tok))
          else p_advance p)"

definition consume_if :: "parser \<Rightarrow> token_type \<Rightarrow> error + (bool \<times> parser)" where
  "consume_if p token_type =
     (case p_current p of
        Inl e \<Rightarrow> Inl e
      | Inr tok \<Rightarrow>
          if tok_type tok = token_type
          then (case p_advance p of Inl e \<Rightarrow> Inl e | Inr (_, p1) \<Rightarrow> Inr (True, p1))
          else Inr (False, p))"

text \<open>
  The value of an identifier or keyword token is the text the lexer read (a \<open>str\<close>).
\<close>

definition str_value :: "token \<Rightarrow> string" where
  "str_value tok = (case tok_value tok of TextV s \<Rightarrow> s | _ \<Rightarrow> [])"

text \<open>
  The constraint loop of \<open>parse_column_def\<close> (\<open>while True\<close>).  On a token list that
  does not end in EOF the loop need not terminate (\<open>advance\<close> stays on the last
  token), so the loop is a partial function: \<open>None\<close> is non-termination.
\<close>

partial_function (option) parse_constraints ::
  "parser \<Rightarrow> bool \<Rightarrow> bool \<Rightarrow> bool \<Rightarrow> (error + ((bool \<times> bool \<times> bool) \<times> parser)) option" where
  "parse_constraints p primary_key unique not_null =
     (case p_match p [T_PRIMARY] of
        Inl e \<Rightarrow> Some (Inl e)
      | Inr is_primary \<Rightarrow>
          if is_primary then
            (case p_advance p of
               Inl e \<Rightarrow> Some (Inl e)
             | Inr r1 \<Rightarrow>
                 (case p_expect (snd r1) T_KEY of
                    Inl e \<Rightarrow> Some (Inl e)
                  | Inr r2 \<Rightarrow> parse_constraints (snd r2) True unique not_null))
          else
            (case p_match p [T_UNIQUE] of
               Inl e \<Rightarrow> Some (Inl e)
             | Inr is_unique \<Rightarrow>
                 if is_unique then
                   (case p_advance p of
                      Inl e \<Rightarrow> Some (Inl e)
                    | Inr r1 \<Rightarrow> parse_constraints (snd r1) primary_key True not_null)
                 else
                   (case p_match p [T_NOT] of
                      Inl e \<Rightarrow> Some (Inl e)
                    | Inr is_not \<Rightarrow>
                        if is_not then
                          (case p_advance p of
                             Inl e \<Rightarrow> Some (Inl e)
                           | Inr r1 \<Rightarrow>
                               (case p_expect (snd r1) T_NULL of
                                  Inl e \<Rightarrow> Some (Inl e)
                                | Inr r2 \<Rightarrow> parse_constraints (snd r2) primary_key unique True))
                        else Some (Inr ((primary_key, unique, not_null), p)))))"

definition data_type_tokens :: "token_type list" where
  "data_type_tokens =
     [T_INTEGER, T_INT, T_TEXT, T_VARCHAR, T_REAL, T_FLOAT, T_BOOLEAN, T_BOOL]"

definition parse_column_def :: "parser \<Rightarrow> (error + (column_def \<times> parser)) option" where
  "parse_column_def p =
     (case p_expect p T_IDENTIFIER of
        Inl e \<Rightarrow> Some (Inl e)
      | Inr (name_tok, p1) \<Rightarrow>
          (case p_current p1 of
             Inl e \<Rightarrow> Some (Inl e)
           | Inr type_token \<Rightarrow>
               if tok_type type_token \<notin> set data_type_tokens
               then Some (Inl (SQLSyntaxError (ExpectedDataType (tok_type type_token))
                                 (tok_line type_token) (tok_column type_token)))
               else
                 (case p_advance p1 of
                    Inl e \<Rightarrow> Some (Inl e)
                  | Inr (tt, p2) \<Rightarrow>
                      (case parse_constraints p2 False False False of
                         None \<Rightarrow> None
                       | Some (Inl e) \<Rightarrow> Some (Inl e)
                       | Some (Inr ((primary_key, unique, not_null), p3)) \<Rightarrow>
                           Some (Inr (ColumnDef (str_value name_tok) (upper (str_value tt))
                                        primary_key unique not_null, p3))))))"

text \<open>The loop \<open>while self.match(COMMA)\<close> of \<open>parse_create\<close>.\<close>

partial_function (option) parse_more_columns ::
  "parser \<Rightarrow> column_def list \<Rightarrow> (error + (column_def list \<times> parser)) option" where
  "parse_more_columns p columns =
     (case p_match p [T_COMMA] of
        Inl e \<Rightarrow> Some (Inl e)
      | Inr is_comma \<Rightarrow>
          if is_comma then
            (case p_advance p of
               Inl e \<Rightarrow> Some (Inl e)
             | Inr r1 \<Rightarrow>
                 (case parse_column_def (snd r1) of
                    None \<Rightarrow> None
                  | Some (Inl e) \<Rightarrow> Some (Inl e)
                  | Some (Inr r2) \<Rightarrow> parse_more_columns (snd r2) (columns @ [fst r2])))
          else Some (Inr (columns, p)))"

definition parse_create :: "parser \<Rightarrow> (error + (create_table_stmt \<times> parser)) option" where
  "parse_create p =
     (case p_expect p T_CREATE of
        Inl e \<Rightarrow> Some (Inl e)
      | Inr (_, p1) \<Rightarrow>
     (case p_expect p1 T_TABLE of
        Inl e \<Rightarrow> Some (Inl e)
      | Inr (_, p2) \<Rightarrow>
     (case (case p_match p2 [T_IF] of
              Inl e \<Rightarrow> Inl e
            | Inr False \<Rightarrow> Inr (False, p2)
            | Inr True \<Rightarrow>
                (case p_advance p2 of
                   Inl e \<Rightarrow> Inl e
                 | Inr (_, q1) \<Rightarrow>
                     (case p_expect q1 T_NOT of
                        Inl e \<Rightarrow> Inl e
                      | Inr (_, q2) \<Rightarrow>
                          (case p_expect q2 T_EXISTS of
                             Inl e \<Rightarrow> Inl e
                           | Inr (_, q3) \<Rightarrow> Inr (True, q3))))) of
        Inl e \<Rightarrow> Some (Inl e)
      | Inr (if_not_exists, p3) \<Rightarrow>
     (case p_expect p3 T_IDENTIFIER of
        Inl e \<Rightarrow> Some (Inl e)
      | Inr (name_tok, p4) \<Rightarrow>
     (case p_expect p4 T_LPAREN of
        Inl e \<Rightarrow> Some (Inl e)
      | Inr (_, p5) \<Rightarrow>
     (case parse_column_def p5 of
        None \<Rightarrow> None
      | Some (Inl e) \<Rightarrow> Some (Inl e)
      | Some (Inr (c, p6)) \<Rightarrow>
     (case parse_more_columns p6 [c] of
        None \<Rightarrow> None
      | Some (Inl e) \<Rightarrow> Some (Inl e)
      | Some (Inr (columns, p7)) \<Rightarrow>
     (case p_expect p7 T_RPAREN of
        Inl e \<Rightarrow> Some (Inl e)
      | Inr (_, p8) \<Rightarrow>
          Some (Inr (CreateTableStmt (str_value name_tok) columns if_not_exists, p8))))))))))"

text \<open>
  \<open>parse(sql)\<close> for a statement that starts with CREATE: \<open>Parser(sql).parse()\<close>, where
  \<open>parse_statement\<close> dispatches to \<open>parse_create\<close> and \<open>parse\<close> then consumes an
  optional semicolon.  (When the first token is not CREATE, \<open>parse_create\<close> itself
  raises at \<open>expect(CREATE)\<close>; the other statement parsers are not part of this model.)
\<close>

definition parse_create_sql :: "py_builtins \<Rightarrow> string \<Rightarrow> (error + create_table_stmt) option" where
  "parse_create_sql py sql =
     (case Parser py sql of
        Inl e \<Rightarrow> Some (Inl e)
      | Inr p \<Rightarrow>
          (case parse_create p of
             None \<Rightarrow> None
           | Some (Inl e) \<Rightarrow> Some (Inl e)
           | Some (Inr (stmt, p1)) \<Rightarrow>
               (case consume_if p1 T_SEMICOLON of
                  Inl e \<Rightarrow> Some (Inl e)
                | Inr _ \<Rightarrow> Some (Inr stmt))))"

lemmas parser_simps =
  parse_create_sql_def Parser_def parse_create_def parse_column_def_def
  parse_more_columns.simps parse_constraints.simps
  p_current_def p_advance_def p_match_def p_expect_def consume_if_def str_value_def
  data_type_tokens_def


declare parse_constraints.simps [code]
declare parse_more_columns.simps [code]

text \<open>
  A sample of the Python built-ins, for closed instances of the theorems: decimal
  \<open>int(str)\<close>, exact \<open>float(int)\<close>, and crude stand-ins for the others.
\<close>

definition digit_values :: "(char \<times> int) list" where
  "digit_values = zip ''0123456789'' [0, 1, 2, 3, 4, 5, 6, 7, 8, 9]"

definition sample_int :: "string \<Rightarrow> int option" where
  "sample_int s =
     (let body = (if s \<noteq> [] \<and> hd s = CHR ''-'' then tl s else s) in
      if body = [] \<or> \<not> list_all isdigit body then None
      else let n = foldl (\<lambda>a c. 10 * a + the (map_of digit_values c)) 0 body
           in Some (if s \<noteq> [] \<and> hd s = CHR ''-'' then - n else n))"

definition sample_str :: "val \<Rightarrow> string" where
  "sample_str v =
     (case v of Null \<Rightarrow> ''None'' | TextV s \<Rightarrow> s | BoolV b \<Rightarrow> (if b then ''True'' else ''False'')
      | IntV i \<Rightarrow> ''<int>'' | RealV x \<Rightarrow> ''<float>'')"

definition py_sample :: py_builtins where
  "py_sample = \<lparr>py_int = sample_int, py_float = (\<lambda>s. None),
                 py_float_of_int = (\<lambda>i. Some (of_int i)),
                 py_str = sample_str, py_re_match = (\<lambda>p s. Some (p = s))\<rparr>"

subsection \<open>Type spellings in a column definition\<close>

lemma isalpha_not_special:
  "isalpha c \<Longrightarrow> \<not> isspace c \<and> \<not> isdigit c \<and> c \<noteq> CHR ''-'' \<and> c \<noteq> CHR ''/''
     \<and> c \<noteq> CHR 0x0A \<and> c \<noteq> CHR 0x22 \<and> c \<noteq> CHR 0x27"
  by (auto simp: char_class_defs)

lemma upper_char_letter:
  "upper_char c \<in> set upper_letters \<Longrightarrow> isalpha c"
  by (auto simp: upper_char_def isalpha_def upper_letters_def lower_letters_def split: if_splits)

lemma read_identifier_loop_word:
  assumes "\<forall>c\<in>set w. isalpha c"
  shows "read_identifier_loop \<lparr>text_rest = w @ '')'', line = l, column = col\<rparr> r =
           (r @ w, \<lparr>text_rest = '')'', line = l, column = col + length w\<rparr>)"
  using assms
proof (induction w arbitrary: col r)
  case Nil
  show ?case
    by (subst read_identifier_loop.simps) (simp add: current_char_def char_class_defs)
next
  case (Cons c w)
  then have c: "isalpha c" and w: "\<forall>c\<in>set w. isalpha c" by simp_all
  have nl: "c \<noteq> CHR 0x0A" using isalpha_not_special [OF c] by simp
  have "read_identifier_loop \<lparr>text_rest = (c # w) @ '')'', line = l, column = col\<rparr> r =
        read_identifier_loop \<lparr>text_rest = w @ '')'', line = l, column = col + 1\<rparr> (r @ [c])"
    using c nl
    by (subst read_identifier_loop.simps) (simp add: current_char_def advance_def isalnum_def)
  then show ?case using Cons.IH [OF w, of "col + 1" "r @ [c]"] by simp
qed

lemma next_token_word:
  assumes "w \<noteq> []" "\<forall>c\<in>set w. isalpha c"
  shows "next_token py \<lparr>text_rest = CHR '' '' # w @ '')'', line = l, column = col\<rparr> =
           Inr (Token (case map_of KEYWORDS (upper w) of Some kw \<Rightarrow> kw | None \<Rightarrow> T_IDENTIFIER)
                  (TextV w) l (col + 1),
                \<lparr>text_rest = '')'', line = l, column = col + 1 + length w\<rparr>)"
proof -
  obtain c w' where w: "w = c # w'" using assms(1) by (cases w) auto
  then have c: "isalpha c" using assms(2) by simp
  note ns = isalpha_not_special [OF c]
  let ?s1 = "\<lparr>text_rest = w @ '')'', line = l, column = Suc col\<rparr>"
  have ws: "skip_whitespace \<lparr>text_rest = CHR '' '' # w @ '')'', line = l, column = col\<rparr> = ?s1"
    apply (subst skip_whitespace.simps)
    apply (simp add: current_char_def advance_def isspace_def)
    apply (subst skip_whitespace.simps)
    using ns w apply (simp add: current_char_def isspace_def)
    done
  have sc: "skip_comment ?s1 = (False, ?s1)"
    using ns w by (simp add: skip_comment_def current_char_def)
  have sb: "skip_blanks \<lparr>text_rest = CHR '' '' # w @ '')'', line = l, column = col\<rparr> = ?s1"
    by (subst skip_blanks.simps) (simp add: ws sc)
  have cc: "current_char ?s1 = Some c" using w by (simp add: current_char_def)
  have ri: "read_identifier_loop ?s1 [] = (w, \<lparr>text_rest = '')'', line = l, column = Suc (col + length w)\<rparr>)"
    using read_identifier_loop_word [OF assms(2), of l "Suc col" "[]"] by simp
  show ?thesis
    using ns c
    by (simp add: next_token_def sb cc read_identifier_def ri split: option.splits)
qed



lemmas lexer_step_simps =
  next_token_def skip_blanks.simps skip_whitespace.simps
  skip_comment_def skip_line_comment.simps skip_block_comment.simps
  read_number_def read_number_loop.simps read_string_def read_string_loop.simps
  read_identifier_def read_identifier_loop.simps
  current_char_def peek_def advance_def Lexer_def Let_def
  KEYWORDS_def single_char_tokens_def char_class_defs

lemma tokenize_create_prefix:
  "tokenize py (Lexer (''CREATE TABLE t (c '' @ rest)) =
     tokenize_loop py \<lparr>text_rest = CHR '' '' # rest, line = 1, column = 18\<rparr>
       [Token T_CREATE (TextV ''CREATE'') 1 1, Token T_TABLE (TextV ''TABLE'') 1 8,
        Token T_IDENTIFIER (TextV ''t'') 1 14, Token T_LPAREN (TextV ''('') 1 16,
        Token T_IDENTIFIER (TextV ''c'') 1 17]"
  unfolding tokenize_def
  apply (subst tokenize_loop.simps, simp add: lexer_step_simps)
  apply (subst tokenize_loop.simps, simp add: lexer_step_simps)
  apply (subst tokenize_loop.simps, simp add: lexer_step_simps)
  apply (subst tokenize_loop.simps, simp add: lexer_step_simps)
  apply (subst tokenize_loop.simps, simp add: lexer_step_simps)
  apply (simp add: eval_nat_numeral)
  done


lemma tokenize_create_word:
  assumes "w \<noteq> []" "\<forall>c\<in>set w. isalpha c" "map_of KEYWORDS (upper w) = Some kw" "kw \<noteq> T_EOF"
  shows "tokenize py (Lexer (''CREATE TABLE t (c '' @ w @ '')'')) =
     Inr [Token T_CREATE (TextV ''CREATE'') 1 1, Token T_TABLE (TextV ''TABLE'') 1 8,
          Token T_IDENTIFIER (TextV ''t'') 1 14, Token T_LPAREN (TextV ''('') 1 16,
          Token T_IDENTIFIER (TextV ''c'') 1 17, Token kw (TextV w) 1 19,
          Token T_RPAREN (TextV '')'') 1 (19 + length w), Token T_EOF Null 1 (20 + length w)]"
  unfolding tokenize_create_prefix
  apply (subst tokenize_loop.simps)
  apply (simp add: next_token_word [OF assms(1,2)] assms(3,4))
  apply (subst tokenize_loop.simps, simp add: lexer_step_simps)
  apply (subst tokenize_loop.simps, simp add: lexer_step_simps)
  done

lemma upper_word_facts:
  assumes "upper w = U" "U \<in> set data_type_tokens"
  shows "w \<noteq> []" "\<forall>c\<in>set w. isalpha c" "map_of KEYWORDS (upper w) = Some U" "U \<noteq> T_EOF"
proof -
  show "w \<noteq> []" using assms by (auto simp: data_type_tokens_def upper_def)
  have "\<forall>c\<in>set U. c \<in> set upper_letters"
    using assms(2) by (auto simp: data_type_tokens_def upper_letters_def)
  then have "\<forall>c\<in>set w. upper_char c \<in> set upper_letters"
    using assms(1) by (auto simp: upper_def)
  then show "\<forall>c\<in>set w. isalpha c" using upper_char_letter by blast
  show "map_of KEYWORDS (upper w) = Some U"
    using assms by (auto simp: data_type_tokens_def KEYWORDS_def)
  show "U \<noteq> T_EOF" using assms(2) by (auto simp: data_type_tokens_def)
qed

lemma parse_create_word:
  assumes "upper w = U" "U \<in> set data_type_tokens"
  shows "parse_create_sql py (''CREATE TABLE t (c '' @ w @ '')'') =
           Some (Inr (CreateTableStmt ''t'' [ColumnDef ''c'' U False False False] False))"
proof -
  note f = upper_word_facts [OF assms]
  have ne: "U \<noteq> T_PRIMARY" "U \<noteq> T_UNIQUE" "U \<noteq> T_NOT" "U \<noteq> T_COMMA" "U \<noteq> T_RPAREN"
    "U \<noteq> T_SEMICOLON" "U \<noteq> T_IDENTIFIER" "U \<noteq> T_IF"
    using assms(2) by (auto simp: data_type_tokens_def)
  show ?thesis
    unfolding parse_create_sql_def Parser_def tokenize_create_word [OF f]
    using assms ne
    by (simp add: parse_create_def parse_column_def_def parse_more_columns.simps
          parse_constraints.simps p_current_def p_advance_def p_match_def p_expect_def
          consume_if_def str_value_def)
qed

lemma from_string_spellings:
  "from_string ''INTEGER'' = Inr INTEGER" "from_string ''INT'' = Inr INTEGER"
  "from_string ''TEXT'' = Inr TEXT" "from_string ''VARCHAR'' = Inr TEXT"
  "from_string ''STRING'' = Inr TEXT"
  "from_string ''REAL'' = Inr REAL" "from_string ''FLOAT'' = Inr REAL"
  "from_string ''DOUBLE'' = Inr REAL"
  "from_string ''BOOLEAN'' = Inr BOOLEAN" "from_string ''BOOL'' = Inr BOOLEAN"
  by code_simp+

text \<open>
  Claim C7, as amended.  For every spelling \<open>w\<close> that is, up to letter case, one of
  INTEGER, INT, TEXT, VARCHAR, REAL, FLOAT, BOOLEAN, BOOL, the statement
  \<open>CREATE TABLE t (c w)\<close> parses to a column definition whose data type is the
  upper-case spelling, and \<open>DataType.from_string\<close> maps that spelling to the tag
  INTEGER, TEXT, REAL or BOOLEAN.
\<close>

theorem C7_type_spellings:
  assumes "upper w \<in> set [''INTEGER'', ''INT'', ''TEXT'', ''VARCHAR'', ''REAL'', ''FLOAT'',
                            ''BOOLEAN'', ''BOOL'']"
  shows "parse_create_sql py (''CREATE TABLE t (c '' @ w @ '')'') =
           Some (Inr (CreateTableStmt ''t'' [ColumnDef ''c'' (upper w) False False False] False))
         \<and> from_string (upper w) =
           Inr (if upper w \<in> set [''INTEGER'', ''INT''] then INTEGER
                else if upper w \<in> set [''TEXT'', ''VARCHAR''] then TEXT
                else if upper w \<in> set [''REAL'', ''FLOAT''] then REAL
                else BOOLEAN)"
proof
  have m: "upper w \<in> set data_type_tokens"
    using assms by (simp add: data_type_tokens_def)
  show "parse_create_sql py (''CREATE TABLE t (c '' @ w @ '')'') =
           Some (Inr (CreateTableStmt ''t'' [ColumnDef ''c'' (upper w) False False False] False))"
    using parse_create_word [OF refl m] .
  show "from_string (upper w) =
           Inr (if upper w \<in> set [''INTEGER'', ''INT''] then INTEGER
                else if upper w \<in> set [''TEXT'', ''VARCHAR''] then TEXT
                else if upper w \<in> set [''REAL'', ''FLOAT''] then REAL
                else BOOLEAN)"
    using assms from_string_spellings by auto
qed

theorem C7_type_spellings_witness:
  "upper ''VarChar'' \<in> set [''INTEGER'', ''INT'', ''TEXT'', ''VARCHAR'', ''REAL'', ''FLOAT'',
                            ''BOOLEAN'', ''BOOL'']
   \<and> parse_create_sql py_sample ''CREATE TABLE t (c VarChar)'' =
       Some (Inr (CreateTableStmt ''t'' [ColumnDef ''c'' ''VARCHAR'' False False False] False))
   \<and> from_string ''VARCHAR'' = Inr TEXT"
proof -
  have h: "upper ''VarChar'' \<in> set [''INTEGER'', ''INT'', ''TEXT'', ''VARCHAR'', ''REAL'',
                                     ''FLOAT'', ''BOOLEAN'', ''BOOL'']"
    by code_simp
  have u: "upper ''VarChar'' = ''VARCHAR''" by code_simp
  show ?thesis using h C7_type_spellings [OF h, of py_sample] unfolding u by simp
qed

text \<open>
  Claim C7 as stated fails for STRING and DOUBLE: the lexer has no such keywords, they
  are read as identifiers, and \<open>parse_column_def\<close> rejects the column definition,
  although \<open>DataType.from_string\<close> would map both spellings.
\<close>

theorem C7_string_double_rejected:
  "parse_create_sql py_sample ''CREATE TABLE t (c STRING)'' =
     Some (Inl (SQLSyntaxError (ExpectedDataType T_IDENTIFIER) 1 19))
   \<and> parse_create_sql py_sample ''CREATE TABLE t (c DOUBLE)'' =
     Some (Inl (SQLSyntaxError (ExpectedDataType T_IDENTIFIER) 1 19))
   \<and> from_string ''STRING'' = Inr TEXT \<and> from_string ''DOUBLE'' = Inr REAL"
  by code_simp


section \<open>B-tree index (index.py)\<close>

subsection \<open>Python comparison of values\<close>

text \<open>
  \<open>a < b\<close> on Python values: numbers (\<open>int\<close>, \<open>float\<close>, \<open>bool\<close> as 0 and 1) compare
  by value, strings compare lexicographically by code point, and any other pair
  raises \<open>TypeError\<close>.
\<close>

fun str_less :: "string \<Rightarrow> string \<Rightarrow> bool" where
  "str_less [] [] = False"
| "str_less [] (y # ys) = True"
| "str_less (x # xs) [] = False"
| "str_less (x # xs) (y # ys) =
     ((of_char x :: nat) < of_char y \<or> (x = y \<and> str_less xs ys))"

definition num_of :: "val \<Rightarrow> real option" where
  "num_of v = (case v of IntV i \<Rightarrow> Some (of_int i) | RealV x \<Rightarrow> Some x
               | BoolV b \<Rightarrow> Some (if b then 1 else 0) | _ \<Rightarrow> None)"

definition py_less :: "val \<Rightarrow> val \<Rightarrow> error + bool" where
  "py_less a b =
     (case (a, b) of
        (TextV s, TextV t) \<Rightarrow> Inr (str_less s t)
      | _ \<Rightarrow> (case (num_of a, num_of b) of
                (Some x, Some y) \<Rightarrow> Inr (x < y)
              | _ \<Rightarrow> Inl PyTypeError))"

subsection \<open>Nodes and trees\<close>

datatype node =
  Node (is_leaf: bool) (node_keys: "val list") (node_values: "nat list list")
       (node_children: "node list")

record btree =
  bt_order :: nat
  bt_root :: node
  bt_size :: int

definition BTreeNode :: "bool \<Rightarrow> node" where
  "BTreeNode leaf = Node leaf [] [] []"

definition BTree :: "nat \<Rightarrow> btree" where
  "BTree order = \<lparr>bt_order = max order 3, bt_root = BTreeNode True, bt_size = 0\<rparr>"

definition min_keys :: "btree \<Rightarrow> nat" where
  "min_keys t = (bt_order t - 1) div 2"

definition max_keys :: "btree \<Rightarrow> nat" where
  "max_keys t = bt_order t - 1"

text \<open>\<open>BTree._compare\<close>.\<close>

definition btree_compare :: "val \<Rightarrow> val \<Rightarrow> error + int" where
  "btree_compare a b =
     (if a = Null \<and> b = Null then Inr 0
      else if a = Null then Inr (- 1)
      else if b = Null then Inr 1
      else (case py_less a b of
              Inl e \<Rightarrow> Inl e
            | Inr True \<Rightarrow> Inr (- 1)
            | Inr False \<Rightarrow>
                (case py_less b a of
                   Inl e \<Rightarrow> Inl e
                 | Inr True \<Rightarrow> Inr 1
                 | Inr False \<Rightarrow> Inr 0)))"

text \<open>\<open>list.insert(i, x)\<close>: an index beyond the end appends.\<close>

definition list_insert :: "'a list \<Rightarrow> nat \<Rightarrow> 'a \<Rightarrow> 'a list" where
  "list_insert xs i x = take i xs @ [x] @ drop i xs"

text \<open>\<open>list.pop(i)\<close> for an index in range.\<close>

definition list_pop :: "'a list \<Rightarrow> nat \<Rightarrow> 'a list" where
  "list_pop xs i = take i xs @ drop (Suc i) xs"

text \<open>
  The loop \<open>while i >= 0 and compare(key, keys[i]) < 0: i -= 1\<close> of
  \<open>_insert_non_full\<close>, started at \<open>i = len(keys) - 1\<close>.  The model counts
  \<open>j = i + 1\<close>, so that the result is the index after the loop plus one.
\<close>

fun scan_right :: "val \<Rightarrow> val list \<Rightarrow> nat \<Rightarrow> error + nat" where
  "scan_right key ks 0 = Inr 0"
| "scan_right key ks (Suc i) =
     (case btree_compare key (ks ! i) of
        Inl e \<Rightarrow> Inl e
      | Inr c \<Rightarrow> if c < 0 then scan_right key ks i else Inr (Suc i))"

text \<open>
  The loop \<open>while i < len(keys) and compare(key, keys[i]) > 0: i += 1\<close> of
  \<open>_search\<close> and \<open>_delete\<close>.
\<close>

function scan_left :: "val \<Rightarrow> val list \<Rightarrow> nat \<Rightarrow> error + nat" where
  "scan_left key ks i =
     (if i < length ks
      then (case btree_compare key (ks ! i) of
              Inl e \<Rightarrow> Inl e
            | Inr c \<Rightarrow> if c > 0 then scan_left key ks (Suc i) else Inr i)
      else Inr i)"
  by pat_completeness auto
termination
  by (relation "measure (\<lambda>(key, ks, i). length ks - i)") auto

declare scan_left.simps [simp del]

text \<open>
  \<open>_split_child\<close> mutates the parent and the child in place; the model returns the
  exception raised, if any, and the parent as the call leaves it.
\<close>

definition split_child :: "node \<Rightarrow> nat \<Rightarrow> error option \<times> node" where
  "split_child parent index =
     (if index \<ge> length (node_children parent) then (Some PyIndexError, parent)
      else
        let child = node_children parent ! index;
            mid = length (node_keys child) div 2
        in if mid \<ge> length (node_keys child) then (Some PyIndexError, parent)
           else
             let keys1 = list_insert (node_keys parent) index (node_keys child ! mid) in
             if mid \<ge> length (node_values child)
             then (Some PyIndexError,
                   Node (is_leaf parent) keys1 (node_values parent) (node_children parent))
             else
               let values1 = list_insert (node_values parent) index (node_values child ! mid);
                   new_node = Node (is_leaf child) (drop (mid + 1) (node_keys child))
                                (drop (mid + 1) (node_values child))
                                (if is_leaf child then []
                                 else drop (mid + 1) (node_children child));
                   child1 = Node (is_leaf child) (take mid (node_keys child))
                              (take mid (node_values child))
                              (if is_leaf child then node_children child
                               else take (mid + 1) (node_children child))
               in (None,
                   Node (is_leaf parent) keys1 values1
                     (list_insert ((node_children parent)[index := child1]) (index + 1) new_node)))"

fun depth :: "node \<Rightarrow> nat" where
  "depth (Node l ks vs cs) = Suc (Max (insert 0 (depth ` set cs)))"


lemma depth_eq: "depth n = Suc (Max (insert 0 (depth ` set (node_children n))))"
  by (cases n) simp

lemma depth_child: "c \<in> set (node_children n) \<Longrightarrow> depth c < depth n"
proof -
  assume "c \<in> set (node_children n)"
  then have "depth c \<le> Max (insert 0 (depth ` set (node_children n)))"
    by (intro Max_ge) auto
  then show ?thesis by (simp add: depth_eq [of n])
qed

lemma depth_mono:
  assumes "set (node_children a) \<subseteq> set (node_children b)"
  shows "depth a \<le> depth b"
proof -
  have "Max (insert 0 (depth ` set (node_children a)))
        \<le> Max (insert 0 (depth ` set (node_children b)))"
    using assms by (intro Max_mono) auto
  then show ?thesis by (simp add: depth_eq [of a] depth_eq [of b])
qed

lemma set_list_insert: "set (list_insert xs i x) = insert x (set xs)"
proof -
  have "set (take i xs) \<union> set (drop i xs) = set xs"
    by (metis append_take_drop_id set_append)
  then show ?thesis by (auto simp: list_insert_def)
qed

lemma depth_split_child:
  assumes "split_child parent index = (None, p1)" "c \<in> set (node_children p1)"
  shows "depth c < depth parent"
proof -
  let ?cs = "node_children parent"
  let ?child = "?cs ! index"
  let ?mid = "length (node_keys ?child) div 2"
  have idx: "index < length ?cs"
    using assms(1) by (auto simp: split_child_def split: if_splits)
  define new_node where "new_node = Node (is_leaf ?child) (drop (?mid + 1) (node_keys ?child))
                                (drop (?mid + 1) (node_values ?child))
                                (if is_leaf ?child then []
                                 else drop (?mid + 1) (node_children ?child))"
  define child1 where "child1 = Node (is_leaf ?child) (take ?mid (node_keys ?child))
                              (take ?mid (node_values ?child))
                              (if is_leaf ?child then node_children ?child
                               else take (?mid + 1) (node_children ?child))"
  have "node_children p1 = list_insert (?cs[index := child1]) (index + 1) new_node"
    using assms(1)
    by (auto simp: split_child_def Let_def new_node_def child1_def split: if_splits)
  then have "c = new_node \<or> c = child1 \<or> c \<in> set ?cs"
    using assms(2) set_update_subset_insert [of ?cs index child1]
    by (auto simp: set_list_insert)
  moreover have "depth new_node \<le> depth ?child"
    by (rule depth_mono) (auto simp: new_node_def dest: in_set_dropD)
  moreover have "depth child1 \<le> depth ?child"
    by (rule depth_mono) (auto simp: child1_def dest: in_set_takeD)
  moreover have "depth ?child < depth parent"
    using idx by (intro depth_child) simp
  ultimately show ?thesis using depth_child [of c parent] by auto
qed

lemma depth_split_child_nth:
  "(None, p1) = split_child parent index \<Longrightarrow> \<not> length (node_children p1) \<le> i
   \<Longrightarrow> depth (node_children p1 ! i) < depth parent"
  using depth_split_child [of parent index p1 "node_children p1 ! i"] by simp

text \<open>
  \<open>_insert_non_full\<close>.  The result is the exception raised, if any, and the node as
  the call leaves it (splits made before a failing comparison stay).
\<close>

function insert_non_full :: "nat \<Rightarrow> node \<Rightarrow> val \<Rightarrow> nat \<Rightarrow> error option \<times> node" where
  "insert_non_full maxk node key row_id =
     (case scan_right key (node_keys node) (length (node_keys node)) of
        Inl e \<Rightarrow> (Some e, node)
      | Inr j \<Rightarrow>
          if is_leaf node then
            (case (if j > 0 then btree_compare key (node_keys node ! (j - 1)) else Inr 1) of
               Inl e \<Rightarrow> (Some e, node)
             | Inr c \<Rightarrow>
                 if j > 0 \<and> c = 0 then
                   (if j - 1 < length (node_values node)
                    then (None, Node (is_leaf node) (node_keys node)
                                  ((node_values node)[j - 1 := node_values node ! (j - 1) @ [row_id]])
                                  (node_children node))
                    else (Some PyIndexError, node))
                 else (None, Node (is_leaf node) (list_insert (node_keys node) j key)
                               (list_insert (node_values node) j [row_id])
                               (node_children node)))
          else if j \<ge> length (node_children node) then (Some PyIndexError, node)
          else if length (node_keys (node_children node ! j)) = maxk then
            (case split_child node j of
               (Some e, node1) \<Rightarrow> (Some e, node1)
             | (None, node1) \<Rightarrow>
                 if j \<ge> length (node_keys node1) then (Some PyIndexError, node1)
                 else
                   (case btree_compare key (node_keys node1 ! j) of
                      Inl e \<Rightarrow> (Some e, node1)
                    | Inr c \<Rightarrow>
                        let i = (if c > 0 then j + 1 else j) in
                        if i \<ge> length (node_children node1) then (Some PyIndexError, node1)
                        else
                          (case insert_non_full maxk (node_children node1 ! i) key row_id of
                             (eo, child1) \<Rightarrow>
                               (eo, Node (is_leaf node1) (node_keys node1) (node_values node1)
                                      ((node_children node1)[i := child1])))))
          else
            (case insert_non_full maxk (node_children node ! j) key row_id of
               (eo, child1) \<Rightarrow>
                 (eo, Node (is_leaf node) (node_keys node) (node_values node)
                        ((node_children node)[j := child1]))))"
  by pat_completeness auto
termination
  apply (relation "measure (\<lambda>(maxk, node, key, row_id). depth node)")
    apply simp
   apply (auto intro: depth_split_child_nth depth_child)
  done

declare insert_non_full.simps [simp del]

definition btree_insert :: "btree \<Rightarrow> val \<Rightarrow> nat \<Rightarrow> error option \<times> btree" where
  "btree_insert t key row_id =
     (let root = bt_root t in
      case (if length (node_keys root) = max_keys t
            then (case split_child (Node False [] [] [root]) 0 of
                    (Some e, _) \<Rightarrow> Inl e
                  | (None, new_root) \<Rightarrow> Inr new_root)
            else Inr root) of
        Inl e \<Rightarrow> (Some e, t)
      | Inr root1 \<Rightarrow>
          (case insert_non_full (max_keys t) root1 key row_id of
             (Some e, root2) \<Rightarrow> (Some e, t\<lparr>bt_root := root2\<rparr>)
           | (None, root2) \<Rightarrow> (None, t\<lparr>bt_root := root2, bt_size := bt_size t + 1\<rparr>)))"


text \<open>\<open>_search\<close>; \<open>search\<close> returns a copy of the row-id list found.\<close>

function search_node :: "node \<Rightarrow> val \<Rightarrow> error + nat list" where
  "search_node node key =
     (case scan_left key (node_keys node) 0 of
        Inl e \<Rightarrow> Inl e
      | Inr i \<Rightarrow>
          (case (if i < length (node_keys node) then btree_compare key (node_keys node ! i)
                 else Inr 1) of
             Inl e \<Rightarrow> Inl e
           | Inr c \<Rightarrow>
               if i < length (node_keys node) \<and> c = 0 then
                 (if i < length (node_values node) then Inr (node_values node ! i)
                  else Inl PyIndexError)
               else if is_leaf node then Inr []
               else if i < length (node_children node)
               then search_node (node_children node ! i) key
               else Inl PyIndexError))"
  by pat_completeness auto
termination
  by (relation "measure (\<lambda>(node, key). depth node)") (auto intro: depth_child)

declare search_node.simps [simp del]

definition search :: "btree \<Rightarrow> val \<Rightarrow> error + nat list" where
  "search t key = search_node (bt_root t) key"

text \<open>
  \<open>_delete\<close>.  The result is \<open>True\<close>/\<open>False\<close> or the exception raised, and the node
  as the call leaves it.  \<open>list.remove(x)\<close> removes the first occurrence.
\<close>

function delete_node :: "node \<Rightarrow> val \<Rightarrow> nat \<Rightarrow> (error + bool) \<times> node" where
  "delete_node node key row_id =
     (case scan_left key (node_keys node) 0 of
        Inl e \<Rightarrow> (Inl e, node)
      | Inr i \<Rightarrow>
          (case (if i < length (node_keys node) then btree_compare key (node_keys node ! i)
                 else Inr 1) of
             Inl e \<Rightarrow> (Inl e, node)
           | Inr c \<Rightarrow>
               if i < length (node_keys node) \<and> c = 0 \<and> \<not> i < length (node_values node)
               then (Inl PyIndexError, node)
               else if i < length (node_keys node) \<and> c = 0 \<and> row_id \<in> set (node_values node ! i)
               then
                 (let rest = remove1 row_id (node_values node ! i) in
                  if rest = []
                  then (Inr True, Node (is_leaf node) (list_pop (node_keys node) i)
                                    (list_pop (node_values node) i) (node_children node))
                  else (Inr True, Node (is_leaf node) (node_keys node)
                                    ((node_values node)[i := rest]) (node_children node)))
               else if is_leaf node then (Inr False, node)
               else if i < length (node_children node) then
                 (case delete_node (node_children node ! i) key row_id of
                    (res, child1) \<Rightarrow>
                      (res, Node (is_leaf node) (node_keys node) (node_values node)
                              ((node_children node)[i := child1])))
               else (Inl PyIndexError, node)))"
  by pat_completeness auto
termination
  by (relation "measure (\<lambda>(node, key, row_id). depth node)") (auto intro: depth_child)

declare delete_node.simps [simp del]

definition btree_delete :: "btree \<Rightarrow> val \<Rightarrow> nat \<Rightarrow> (error + bool) \<times> btree" where
  "btree_delete t key row_id =
     (case delete_node (bt_root t) key row_id of
        (Inl e, root1) \<Rightarrow> (Inl e, t\<lparr>bt_root := root1\<rparr>)
      | (Inr deleted, root1) \<Rightarrow>
          if length (node_keys root1) = 0 \<and> \<not> is_leaf root1 then
            (case node_children root1 of
               [] \<Rightarrow> (Inl PyIndexError, t\<lparr>bt_root := root1\<rparr>)
             | c # _ \<Rightarrow>
                 (Inr deleted,
                  t\<lparr>bt_root := c, bt_size := (if deleted then bt_size t - 1 else bt_size t)\<rparr>))
          else (Inr deleted,
                t\<lparr>bt_root := root1, bt_size := (if deleted then bt_size t - 1 else bt_size t)\<rparr>))"

definition btree_len :: "btree \<Rightarrow> int" where
  "btree_len t = bt_size t"

definition btree_contains :: "btree \<Rightarrow> val \<Rightarrow> error + bool" where
  "btree_contains t key =
     (case search t key of Inl e \<Rightarrow> Inl e | Inr rs \<Rightarrow> Inr (length rs > 0))"

subsection \<open>Counting the entries of a tree\<close>

text \<open>The row ids held by all key slots of all nodes, and by those of the leaves only.\<close>

fun entries_count :: "node \<Rightarrow> nat" where
  "entries_count (Node l ks vs cs) =
     sum_list (map length vs) + sum_list (map entries_count cs)"

fun leaf_entries_count :: "node \<Rightarrow> nat" where
  "leaf_entries_count (Node l ks vs cs) =
     (if l then sum_list (map length vs) else sum_list (map leaf_entries_count cs))"

text \<open>Running a list of insertions, ignoring the outcome of each.\<close>

fun insert_all :: "btree \<Rightarrow> (val \<times> nat) list \<Rightarrow> btree" where
  "insert_all t [] = t"
| "insert_all t ((k, r) # xs) = insert_all (snd (btree_insert t k r)) xs"


subsection \<open>The size counter and the entries of the tree\<close>

lemma entries_count_eq:
  "entries_count n = sum_list (map length (node_values n))
                     + sum_list (map entries_count (node_children n))"
  by (cases n) simp

lemma sum_list_map_update:
  fixes f :: "'a \<Rightarrow> nat"
  assumes "i < length xs"
  shows "sum_list (map f (xs[i := y])) + f (xs ! i) = sum_list (map f xs) + f y"
proof -
  have "xs = take i xs @ (xs ! i) # drop (Suc i) xs"
    using assms by (simp add: id_take_nth_drop)
  moreover have "xs[i := y] = take i xs @ y # drop (Suc i) xs"
    using assms by (simp add: upd_conv_take_nth_drop)
  ultimately have "sum_list (map f (xs[i := y])) = sum_list (map f (take i xs)) + f y
                     + sum_list (map f (drop (Suc i) xs))"
    and "sum_list (map f xs) = sum_list (map f (take i xs)) + f (xs ! i)
                     + sum_list (map f (drop (Suc i) xs))"
    by (metis (no_types) add.assoc list.simps(9) map_append sum_list.Cons sum_list.append)+
  then show ?thesis by simp
qed

lemma sum_list_map_list_insert:
  fixes f :: "'a \<Rightarrow> nat"
  shows "sum_list (map f (list_insert xs i y)) = sum_list (map f xs) + f y"
proof -
  have "sum_list (map f (take i xs)) + sum_list (map f (drop i xs)) = sum_list (map f xs)"
    by (metis append_take_drop_id map_append sum_list.append)
  then show ?thesis by (simp add: list_insert_def)
qed

lemma sum_list_map_take_drop:
  fixes f :: "'a \<Rightarrow> nat"
  assumes "m < length xs"
  shows "sum_list (map f (take m xs)) + f (xs ! m) + sum_list (map f (drop (Suc m) xs))
         = sum_list (map f xs)"
proof -
  have "xs = take m xs @ (xs ! m) # drop (Suc m) xs"
    using assms by (simp add: id_take_nth_drop)
  then have "sum_list (map f xs)
             = sum_list (map f (take m xs @ (xs ! m) # drop (Suc m) xs))" by simp
  then show ?thesis by simp
qed

lemma sum_list_map_take_drop2:
  fixes f :: "'a \<Rightarrow> nat"
  shows "sum_list (map f (take m xs)) + sum_list (map f (drop m xs)) = sum_list (map f xs)"
  by (metis append_take_drop_id map_append sum_list.append)

lemma split_child_count:
  assumes "split_child parent index = (eo, p1)"
  shows "entries_count p1 = entries_count parent"
proof (cases eo)
  case (Some e)
  then have "p1 = parent \<or> (\<exists>ks. p1 = Node (is_leaf parent) ks (node_values parent)
                                        (node_children parent))"
    using assms by (auto simp: split_child_def Let_def split: if_splits)
  then show ?thesis
    using entries_count_eq [of parent] by auto
next
  case None
  let ?cs = "node_children parent"
  let ?child = "?cs ! index"
  let ?mid = "length (node_keys ?child) div 2"
  have idx: "index < length ?cs" and midv: "?mid < length (node_values ?child)"
    using assms None by (auto simp: split_child_def Let_def split: if_splits)
  define new_node where "new_node = Node (is_leaf ?child) (drop (?mid + 1) (node_keys ?child))
                                (drop (?mid + 1) (node_values ?child))
                                (if is_leaf ?child then []
                                 else drop (?mid + 1) (node_children ?child))"
  define child1 where "child1 = Node (is_leaf ?child) (take ?mid (node_keys ?child))
                              (take ?mid (node_values ?child))
                              (if is_leaf ?child then node_children ?child
                               else take (?mid + 1) (node_children ?child))"
  have p1: "p1 = Node (is_leaf parent)
                   (list_insert (node_keys parent) index (node_keys ?child ! ?mid))
                   (list_insert (node_values parent) index (node_values ?child ! ?mid))
                   (list_insert (?cs[index := child1]) (index + 1) new_node)"
    using assms None
    by (auto simp: split_child_def Let_def new_node_def child1_def split: if_splits)
  have c: "entries_count child1 + entries_count new_node + length (node_values ?child ! ?mid)
           = entries_count ?child"
    using sum_list_map_take_drop [OF midv, of length]
      sum_list_map_take_drop2 [of entries_count "Suc ?mid" "node_children ?child"]
    by (simp add: child1_def new_node_def entries_count_eq [of ?child])
  have "sum_list (map entries_count (list_insert (?cs[index := child1]) (index + 1) new_node))
          + entries_count ?child
        = sum_list (map entries_count ?cs) + entries_count child1 + entries_count new_node"
    using sum_list_map_update [OF idx, of entries_count child1]
    by (simp add: sum_list_map_list_insert)
  then show ?thesis
    using c by (simp add: p1 sum_list_map_list_insert entries_count_eq [of parent])
qed


lemma entries_count_Node_children:
  assumes "i < length (node_children n)"
  shows "entries_count (Node l ks (node_values n) ((node_children n)[i := c]))
           + entries_count (node_children n ! i)
         = entries_count n + entries_count c"
  using sum_list_map_update [OF assms, of entries_count c]
  by (simp add: entries_count_eq [of n])

lemma insert_non_full_count:
  "insert_non_full maxk node key row_id = (eo, n1) \<Longrightarrow>
   entries_count n1 = entries_count node + (if eo = None then 1 else 0)"
proof (induction maxk node key row_id arbitrary: eo n1 rule: insert_non_full.induct)
  case (1 maxk node key row_id)
  note eq = insert_non_full.simps [of maxk node key row_id]
  show ?case
  proof (cases "scan_right key (node_keys node) (length (node_keys node))")
    case (Inl e)
    then show ?thesis using eq "1.prems" by simp
  next
    case (Inr j)
    show ?thesis
    proof (cases "is_leaf node")
      case True
      have upd: "j - 1 < length (node_values node) \<Longrightarrow>
                 sum_list (map length ((node_values node)[j - 1 := node_values node ! (j - 1) @ [row_id]]))
                 = sum_list (map length (node_values node)) + 1"
        using sum_list_map_update [of "j - 1" "node_values node" length
                "node_values node ! (j - 1) @ [row_id]"] by simp
      show ?thesis
        using eq "1.prems" Inr True upd
        by (auto simp: entries_count_eq [of node] sum_list_map_list_insert
                 split: sum.splits if_splits)
    next
      case False
      show ?thesis
      proof (cases "j \<ge> length (node_children node)")
        case True
        then show ?thesis using eq "1.prems" Inr False by simp
      next
        case inr: False
        show ?thesis
        proof (cases "length (node_keys (node_children node ! j)) = maxk")
          case full: True
          obtain x node1 where sc: "split_child node j = (x, node1)"
            by (cases "split_child node j") auto
          have c1: "entries_count node1 = entries_count node"
            using split_child_count [OF sc] .
          show ?thesis
          proof (cases x)
            case (Some e)
            then show ?thesis using eq "1.prems" Inr False inr full sc c1 by simp
          next
            case None
            show ?thesis
            proof (cases "j \<ge> length (node_keys node1)")
              case True
              then show ?thesis using eq "1.prems" Inr False inr full sc c1 None by simp
            next
              case k: False
              show ?thesis
              proof (cases "btree_compare key (node_keys node1 ! j)")
                case (Inl e)
                then show ?thesis using eq "1.prems" Inr False inr full sc c1 None k by simp
              next
                case cmp: (Inr c)
                define i where "i = (if 0 < c then j + 1 else j)"
                show ?thesis
                proof (cases "i \<ge> length (node_children node1)")
                  case True
                  then show ?thesis
                    using eq "1.prems" Inr False inr full sc c1 None k cmp
                    by (simp add: i_def Let_def)
                next
                  case ir: False
                  obtain eo1 child1 where
                    rc: "insert_non_full maxk (node_children node1 ! i) key row_id = (eo1, child1)"
                    by (cases "insert_non_full maxk (node_children node1 ! i) key row_id") auto
                  have ih: "entries_count child1 = entries_count (node_children node1 ! i)
                              + (if eo1 = None then 1 else 0)"
                    using "1.IH"(1) [OF Inr False inr full sc [symmetric] None k cmp i_def ir rc] .
                  have res: "eo = eo1"
                    "n1 = Node (is_leaf node1) (node_keys node1) (node_values node1)
                            ((node_children node1)[i := child1])"
                    using eq "1.prems" Inr False inr full sc None k cmp ir rc
                    by (simp_all add: i_def Let_def)
                  show ?thesis
                    using entries_count_Node_children [of i node1 "is_leaf node1" "node_keys node1" child1]
                      ir ih c1 res by simp
                qed
              qed
            qed
          qed
        next
          case nf: False
          obtain eo1 child1 where
            rc: "insert_non_full maxk (node_children node ! j) key row_id = (eo1, child1)"
            by (cases "insert_non_full maxk (node_children node ! j) key row_id") auto
          have ih: "entries_count child1 = entries_count (node_children node ! j)
                      + (if eo1 = None then 1 else 0)"
            using "1.IH"(2) [OF Inr False inr nf rc] .
          have res: "eo = eo1"
            "n1 = Node (is_leaf node) (node_keys node) (node_values node)
                    ((node_children node)[j := child1])"
            using eq "1.prems" Inr False inr nf rc by simp_all
          show ?thesis
            using entries_count_Node_children [of j node "is_leaf node" "node_keys node" child1]
              inr ih res by simp
        qed
      qed
    qed
  qed
qed


text \<open>
  The shape of a well-formed node: one row-id list per key, and an internal node has
  one child more than it has keys.
\<close>

fun shape :: "node \<Rightarrow> bool" where
  "shape (Node l ks vs cs) =
     (length vs = length ks \<and> (l \<or> length cs = Suc (length ks)) \<and> (\<forall>c\<in>set cs. shape c))"

lemma shape_eq:
  "shape n = (length (node_values n) = length (node_keys n)
              \<and> (is_leaf n \<or> length (node_children n) = Suc (length (node_keys n)))
              \<and> (\<forall>c\<in>set (node_children n). shape c))"
  by (cases n) simp

lemma length_list_insert: "length (list_insert xs i x) = Suc (length xs)"
  by (simp add: list_insert_def)

lemma length_list_pop: "i < length xs \<Longrightarrow> length (list_pop xs i) = length xs - 1"
  by (auto simp: list_pop_def)

lemma half_length_less: "xs \<noteq> [] \<Longrightarrow> \<not> length xs \<le> length xs div 2"
  by (cases xs) auto

lemma split_child_shape:
  assumes "shape parent" "split_child parent index = (eo, p1)"
  shows "shape p1"
proof (cases "index < length (node_children parent)")
  case False
  then show ?thesis using assms by (simp add: split_child_def)
next
  case idx: True
  let ?cs = "node_children parent"
  let ?child = "?cs ! index"
  let ?mid = "length (node_keys ?child) div 2"
  have sc: "shape ?child" using assms(1) idx by (simp add: shape_eq [of parent])
  show ?thesis
  proof (cases "?mid < length (node_keys ?child)")
    case False
    then have "node_keys ?child = []" by (cases "node_keys ?child") auto
    then show ?thesis using assms idx by (simp add: split_child_def Let_def)
  next
    case mid: True
    then have midv: "?mid < length (node_values ?child)"
      using sc by (simp add: shape_eq [of ?child])
    define new_node where "new_node = Node (is_leaf ?child) (drop (?mid + 1) (node_keys ?child))
                                (drop (?mid + 1) (node_values ?child))
                                (if is_leaf ?child then []
                                 else drop (?mid + 1) (node_children ?child))"
    define child1 where "child1 = Node (is_leaf ?child) (take ?mid (node_keys ?child))
                              (take ?mid (node_values ?child))
                              (if is_leaf ?child then node_children ?child
                               else take (?mid + 1) (node_children ?child))"
    have p1: "p1 = Node (is_leaf parent)
                   (list_insert (node_keys parent) index (node_keys ?child ! ?mid))
                   (list_insert (node_values parent) index (node_values ?child ! ?mid))
                   (list_insert (?cs[index := child1]) (index + 1) new_node)"
      using assms(2) idx mid midv
      by (simp add: split_child_def Let_def new_node_def child1_def)
    have s_new: "shape new_node"
      using sc mid
      by (auto simp: new_node_def shape_eq [of ?child] half_length_less dest: in_set_dropD)
    have s_child1: "shape child1"
      using sc mid
      by (auto simp: child1_def shape_eq [of ?child] min_def half_length_less dest: in_set_takeD)
    have "\<forall>c\<in>set (list_insert (?cs[index := child1]) (index + 1) new_node). shape c"
      using s_new s_child1 assms(1) set_update_subset_insert [of ?cs index child1]
      by (auto simp: set_list_insert shape_eq [of parent])
    then show ?thesis
      using assms(1) by (simp add: p1 length_list_insert shape_eq [of parent])
  qed
qed

lemma shape_Node_children:
  assumes "shape n" "shape c"
  shows "shape (Node (is_leaf n) (node_keys n) (node_values n) ((node_children n)[i := c]))"
  using assms set_update_subset_insert [of "node_children n" i c]
  by (auto simp: shape_eq [of n])

lemma insert_non_full_shape:
  "shape node \<Longrightarrow> insert_non_full maxk node key row_id = (eo, n1) \<Longrightarrow> shape n1"
proof (induction maxk node key row_id arbitrary: eo n1 rule: insert_non_full.induct)
  case (1 maxk node key row_id)
  note eq = insert_non_full.simps [of maxk node key row_id]
  note sh = "1.prems"(1)
  note res = "1.prems"(2)
  show ?case
  proof (cases "scan_right key (node_keys node) (length (node_keys node))")
    case (Inl e)
    then show ?thesis using eq res sh by simp
  next
    case (Inr j)
    show ?thesis
    proof (cases "is_leaf node")
      case True
      show ?thesis
        using eq res Inr True sh
        by (auto simp: shape_eq [of node] length_list_insert split: sum.splits if_splits)
    next
      case False
      show ?thesis
      proof (cases "j \<ge> length (node_children node)")
        case True
        then show ?thesis using eq res Inr False sh by simp
      next
        case inr: False
        show ?thesis
        proof (cases "length (node_keys (node_children node ! j)) = maxk")
          case full: True
          obtain x node1 where sc: "split_child node j = (x, node1)"
            by (cases "split_child node j") auto
          have s1: "shape node1" using split_child_shape [OF sh sc] .
          show ?thesis
          proof (cases x)
            case (Some e)
            then show ?thesis using eq res Inr False inr full sc s1 by simp
          next
            case None
            show ?thesis
            proof (cases "j \<ge> length (node_keys node1)")
              case True
              then show ?thesis using eq res Inr False inr full sc s1 None by simp
            next
              case k: False
              show ?thesis
              proof (cases "btree_compare key (node_keys node1 ! j)")
                case (Inl e)
                then show ?thesis using eq res Inr False inr full sc s1 None k by simp
              next
                case cmp: (Inr c)
                define i where "i = (if 0 < c then j + 1 else j)"
                show ?thesis
                proof (cases "i \<ge> length (node_children node1)")
                  case True
                  then show ?thesis
                    using eq res Inr False inr full sc s1 None k cmp
                    by (simp add: i_def Let_def)
                next
                  case ir: False
                  obtain eo1 child1 where
                    rc: "insert_non_full maxk (node_children node1 ! i) key row_id = (eo1, child1)"
                    by (cases "insert_non_full maxk (node_children node1 ! i) key row_id") auto
                  have "shape (node_children node1 ! i)"
                    using s1 ir by (simp add: shape_eq [of node1])
                  then have ih: "shape child1"
                    using "1.IH"(1) [OF Inr False inr full sc [symmetric] None k cmp i_def ir _ rc]
                    by simp
                  have "n1 = Node (is_leaf node1) (node_keys node1) (node_values node1)
                            ((node_children node1)[i := child1])"
                    using eq res Inr False inr full sc None k cmp ir rc
                    by (simp add: i_def Let_def)
                  then show ?thesis using shape_Node_children [OF s1 ih] by simp
                qed
              qed
            qed
          qed
        next
          case nf: False
          obtain eo1 child1 where
            rc: "insert_non_full maxk (node_children node ! j) key row_id = (eo1, child1)"
            by (cases "insert_non_full maxk (node_children node ! j) key row_id") auto
          have "shape (node_children node ! j)"
            using sh inr by (simp add: shape_eq [of node])
          then have ih: "shape child1"
            using "1.IH"(2) [OF Inr False inr nf _ rc] by simp
          have "n1 = Node (is_leaf node) (node_keys node) (node_values node)
                    ((node_children node)[j := child1])"
            using eq res Inr False inr nf rc by simp
          then show ?thesis using shape_Node_children [OF sh ih] by simp
        qed
      qed
    qed
  qed
qed


text \<open>
  Whether \<open>delete(key, row_id)\<close> empties the row-id list of a key held by an internal
  node, so that \<open>_delete\<close> pops the key of that internal node (the branch the source
  marks as simplified).  The function follows the path of \<open>_delete\<close>.
\<close>

function empties_internal_slot :: "node \<Rightarrow> val \<Rightarrow> nat \<Rightarrow> bool" where
  "empties_internal_slot node key row_id =
     (case scan_left key (node_keys node) 0 of
        Inl e \<Rightarrow> False
      | Inr i \<Rightarrow>
          (case (if i < length (node_keys node) then btree_compare key (node_keys node ! i)
                 else Inr 1) of
             Inl e \<Rightarrow> False
           | Inr c \<Rightarrow>
               if i < length (node_keys node) \<and> c = 0 \<and> \<not> i < length (node_values node)
               then False
               else if i < length (node_keys node) \<and> c = 0 \<and> row_id \<in> set (node_values node ! i)
               then \<not> is_leaf node \<and> remove1 row_id (node_values node ! i) = []
               else if is_leaf node then False
               else if i < length (node_children node)
               then empties_internal_slot (node_children node ! i) key row_id
               else False))"
  by pat_completeness auto
termination
  by (relation "measure (\<lambda>(node, key, row_id). depth node)") (auto intro: depth_child)

declare empties_internal_slot.simps [simp del]

lemma sum_list_length_remove1:
  assumes "i < length vs" "r \<in> set (vs ! i)"
  shows "sum_list (map length (vs[i := remove1 r (vs ! i)])) + 1 = sum_list (map length vs)"
proof -
  have "length (remove1 r (vs ! i)) + 1 = length (vs ! i)"
    using assms(2) by (simp add: length_remove1) (cases "vs ! i", auto)
  then show ?thesis
    using sum_list_map_update [OF assms(1), of length "remove1 r (vs ! i)"] by simp
qed

lemma sum_list_length_pop:
  assumes "i < length vs" "r \<in> set (vs ! i)" "remove1 r (vs ! i) = []"
  shows "sum_list (map length (list_pop vs i)) + 1 = sum_list (map length vs)"
proof -
  have "length (remove1 r (vs ! i)) + 1 = length (vs ! i)"
    using assms(2) by (simp add: length_remove1) (cases "vs ! i", auto)
  then have "length (vs ! i) = 1" using assms(3) by simp
  moreover have "sum_list (map length (take i vs)) + length (vs ! i)
                 + sum_list (map length (drop (Suc i) vs)) = sum_list (map length vs)"
    using sum_list_map_take_drop [OF assms(1), of length] .
  ultimately show ?thesis by (simp add: list_pop_def)
qed

lemma delete_node_count:
  "delete_node node key row_id = (res, n1) \<Longrightarrow>
   entries_count n1 + (if res = Inr True then 1 else 0) = entries_count node"
proof (induction node key row_id arbitrary: res n1 rule: delete_node.induct)
  case (1 node key row_id)
  note eq = delete_node.simps [of node key row_id]
  show ?case
  proof (cases "scan_left key (node_keys node) 0")
    case (Inl e)
    then show ?thesis using eq "1.prems" by simp
  next
    case (Inr i)
    show ?thesis
    proof (cases "if i < length (node_keys node) then btree_compare key (node_keys node ! i)
                  else Inr 1")
      case (Inl e)
      then show ?thesis using eq "1.prems" Inr by simp
    next
      case cmp: (Inr c)
      consider (ierr) "i < length (node_keys node) \<and> c = 0 \<and> \<not> i < length (node_values node)"
        | (found) "i < length (node_keys node)" "c = 0" "i < length (node_values node)"
                  "row_id \<in> set (node_values node ! i)"
        | (down) "\<not> (i < length (node_keys node) \<and> c = 0 \<and> \<not> i < length (node_values node))"
                 "\<not> (i < length (node_keys node) \<and> c = 0 \<and> row_id \<in> set (node_values node ! i))"
        by blast
      then show ?thesis
      proof cases
        case ierr
        then show ?thesis using eq "1.prems" Inr cmp by simp
      next
        case found
        show ?thesis
          using eq "1.prems" Inr cmp found
            sum_list_length_remove1 [OF found(3,4)] sum_list_length_pop [OF found(3,4)]
          by (auto simp: Let_def entries_count_eq [of node] split: if_splits)
      next
        case down
        show ?thesis
        proof (cases "is_leaf node \<or> \<not> i < length (node_children node)")
          case True
          then show ?thesis using eq "1.prems" Inr cmp down by (auto split: if_splits)
        next
          case False
          then have nl: "\<not> is_leaf node" and ic: "i < length (node_children node)" by simp_all
          obtain r1 child1 where
            rc: "delete_node (node_children node ! i) key row_id = (r1, child1)"
            by (cases "delete_node (node_children node ! i) key row_id") auto
          have ih: "entries_count child1 + (if r1 = Inr True then 1 else 0)
                    = entries_count (node_children node ! i)"
            using "1.IH" [OF Inr cmp down nl ic rc] .
          have "res = r1"
            "n1 = Node (is_leaf node) (node_keys node) (node_values node)
                    ((node_children node)[i := child1])"
            using eq "1.prems" Inr cmp down nl ic rc by simp_all
          then show ?thesis
            using entries_count_Node_children [OF ic, of "is_leaf node" "node_keys node" child1] ih
            by simp
        qed
      qed
    qed
  qed
qed

lemma delete_node_shape:
  "shape node \<Longrightarrow> \<not> empties_internal_slot node key row_id \<Longrightarrow>
   delete_node node key row_id = (res, n1) \<Longrightarrow> shape n1"
proof (induction node key row_id arbitrary: res n1 rule: delete_node.induct)
  case (1 node key row_id)
  note eq = delete_node.simps [of node key row_id]
  note em = empties_internal_slot.simps [of node key row_id]
  note sh = "1.prems"(1)
  note ne = "1.prems"(2)
  note rs = "1.prems"(3)
  show ?case
  proof (cases "scan_left key (node_keys node) 0")
    case (Inl e)
    then show ?thesis using eq rs sh by simp
  next
    case (Inr i)
    show ?thesis
    proof (cases "if i < length (node_keys node) then btree_compare key (node_keys node ! i)
                  else Inr 1")
      case (Inl e)
      then show ?thesis using eq rs sh Inr by simp
    next
      case cmp: (Inr c)
      consider (ierr) "i < length (node_keys node) \<and> c = 0 \<and> \<not> i < length (node_values node)"
        | (found) "i < length (node_keys node)" "c = 0" "i < length (node_values node)"
                  "row_id \<in> set (node_values node ! i)"
        | (down) "\<not> (i < length (node_keys node) \<and> c = 0 \<and> \<not> i < length (node_values node))"
                 "\<not> (i < length (node_keys node) \<and> c = 0 \<and> row_id \<in> set (node_values node ! i))"
        by blast
      then show ?thesis
      proof cases
        case ierr
        then show ?thesis using eq rs sh Inr cmp by simp
      next
        case found
        have "is_leaf node \<or> remove1 row_id (node_values node ! i) \<noteq> []"
          using ne em Inr cmp found by simp
        then show ?thesis
          using eq rs Inr cmp found sh
          by (auto simp: Let_def shape_eq [of node] length_list_pop split: if_splits)
      next
        case down
        show ?thesis
        proof (cases "is_leaf node \<or> \<not> i < length (node_children node)")
          case True
          then show ?thesis using eq rs sh Inr cmp down by (auto split: if_splits)
        next
          case False
          then have nl: "\<not> is_leaf node" and ic: "i < length (node_children node)" by simp_all
          obtain r1 child1 where
            rc: "delete_node (node_children node ! i) key row_id = (r1, child1)"
            by (cases "delete_node (node_children node ! i) key row_id") auto
          have "shape (node_children node ! i)"
            using sh ic by (simp add: shape_eq [of node])
          moreover have "\<not> empties_internal_slot (node_children node ! i) key row_id"
            using ne em Inr cmp down nl ic by simp
          ultimately have ih: "shape child1"
            using "1.IH" [OF Inr cmp down nl ic _ _ rc] by simp
          have "n1 = Node (is_leaf node) (node_keys node) (node_values node)
                    ((node_children node)[i := child1])"
            using eq rs Inr cmp down nl ic rc by simp
          then show ?thesis using shape_Node_children [OF sh ih] by simp
        qed
      qed
    qed
  qed
qed


text \<open>
  The trees reachable from a fresh tree by insertions and by deletions that do not
  empty the row-id list of a key held by an internal node.
\<close>

inductive reachable :: "nat \<Rightarrow> btree \<Rightarrow> bool" for order :: nat where
  fresh: "reachable order (BTree order)"
| ins: "reachable order t \<Longrightarrow> reachable order (snd (btree_insert t key row_id))"
| del: "reachable order t \<Longrightarrow> \<not> empties_internal_slot (bt_root t) key row_id
        \<Longrightarrow> reachable order (snd (btree_delete t key row_id))"

lemma btree_insert_inv:
  assumes "shape (bt_root t)" "bt_size t = int (entries_count (bt_root t))"
  shows "shape (bt_root (snd (btree_insert t key row_id)))
         \<and> bt_size (snd (btree_insert t key row_id))
           = int (entries_count (bt_root (snd (btree_insert t key row_id))))"
proof -
  let ?root = "bt_root t"
  obtain x new_root where sc: "split_child (Node False [] [] [?root]) 0 = (x, new_root)"
    by (cases "split_child (Node False [] [] [?root]) 0") auto
  have sh0: "shape (Node False [] [] [?root])" using assms(1) by simp
  have s_new: "shape new_root" using split_child_shape [OF sh0 sc] .
  have c_new: "entries_count new_root = entries_count ?root"
    using split_child_count [OF sc] by simp
  define root1 where "root1 = (if length (node_keys ?root) = max_keys t then new_root else ?root)"
  have r1: "shape root1" "entries_count root1 = entries_count ?root"
    using s_new c_new assms(1) by (simp_all add: root1_def)
  obtain eo root2 where inf: "insert_non_full (max_keys t) root1 key row_id = (eo, root2)"
    by (cases "insert_non_full (max_keys t) root1 key row_id") auto
  have s2: "shape root2" using insert_non_full_shape [OF r1(1) inf] .
  have c2: "entries_count root2 = entries_count ?root + (if eo = None then 1 else 0)"
    using insert_non_full_count [OF inf] r1(2) by simp
  show ?thesis
  proof (cases "length (node_keys ?root) = max_keys t \<and> x \<noteq> None")
    case True
    then show ?thesis
      using assms sc by (auto simp: btree_insert_def Let_def)
  next
    case False
    then have "btree_insert t key row_id =
                 (case insert_non_full (max_keys t) root1 key row_id of
                    (Some e, root2) \<Rightarrow> (Some e, t\<lparr>bt_root := root2\<rparr>)
                  | (None, root2) \<Rightarrow> (None, t\<lparr>bt_root := root2, bt_size := bt_size t + 1\<rparr>))"
      using sc by (auto simp: btree_insert_def Let_def root1_def)
    then show ?thesis
      using inf s2 c2 assms(2) by (cases eo) auto
  qed
qed

lemma btree_delete_inv:
  assumes "shape (bt_root t)" "bt_size t = int (entries_count (bt_root t))"
    "\<not> empties_internal_slot (bt_root t) key row_id"
  shows "shape (bt_root (snd (btree_delete t key row_id)))
         \<and> bt_size (snd (btree_delete t key row_id))
           = int (entries_count (bt_root (snd (btree_delete t key row_id))))"
proof -
  obtain res root1 where dn: "delete_node (bt_root t) key row_id = (res, root1)"
    by (cases "delete_node (bt_root t) key row_id") auto
  have s1: "shape root1" using delete_node_shape [OF assms(1,3) dn] .
  have c1: "entries_count root1 + (if res = Inr True then 1 else 0) = entries_count (bt_root t)"
    using delete_node_count [OF dn] .
  show ?thesis
  proof (cases res)
    case (Inl e)
    then show ?thesis using dn s1 c1 assms(2) by (simp add: btree_delete_def)
  next
    case (Inr deleted)
    show ?thesis
    proof (cases "length (node_keys root1) = 0 \<and> \<not> is_leaf root1")
      case False
      then show ?thesis
        using dn s1 c1 assms(2) Inr by (auto simp: btree_delete_def)
    next
      case True
      then obtain c where cs: "node_children root1 = [c]"
        using s1 by (cases "node_children root1") (auto simp: shape_eq [of root1])
      have "node_values root1 = []" using s1 True by (simp add: shape_eq [of root1])
      then have "entries_count root1 = entries_count c"
        using cs by (simp add: entries_count_eq [of root1])
      moreover have "shape c" using s1 cs by (simp add: shape_eq [of root1])
      ultimately show ?thesis
        using dn c1 assms(2) Inr True cs by (auto simp: btree_delete_def)
    qed
  qed
qed

lemma reachable_inv:
  "reachable order t \<Longrightarrow> shape (bt_root t) \<and> bt_size t = int (entries_count (bt_root t))"
proof (induction rule: reachable.induct)
  case fresh
  show ?case by (simp add: BTree_def BTreeNode_def)
next
  case (ins t key row_id)
  then show ?case using btree_insert_inv by blast
next
  case (del t key row_id)
  then show ?case using btree_delete_inv by blast
qed

lemma reachable_insert_all: "reachable order t \<Longrightarrow> reachable order (insert_all t xs)"
proof (induction xs arbitrary: t)
  case Nil
  then show ?case by simp
next
  case (Cons x xs)
  obtain k r where x: "x = (k, r)" by (cases x) auto
  have "reachable order (snd (btree_insert t k r))"
    using Cons.prems by (rule reachable.ins)
  then show ?case using Cons.IH x by simp
qed

text \<open>
  Claim C4, as amended.  For every B-tree reachable from a fresh tree by insertions,
  and by deletions that do not empty the row-id list of a key held by an internal
  node, \<open>len(btree)\<close> equals the number of row ids held by all key slots of all nodes,
  internal nodes as well as leaves.
\<close>

theorem C4_len_counts_all_entries:
  "reachable order t \<Longrightarrow> btree_len t = int (entries_count (bt_root t))"
  using reachable_inv by (simp add: btree_len_def)

definition four_keys :: "(val \<times> nat) list" where
  "four_keys = [(IntV 1, 1), (IntV 2, 2), (IntV 3, 3), (IntV 4, 4)]"

theorem C4_len_counts_all_entries_witness:
  "reachable 4 (snd (btree_delete (insert_all (BTree 4) four_keys) (IntV 4) 4))
   \<and> btree_len (snd (btree_delete (insert_all (BTree 4) four_keys) (IntV 4) 4)) = 3
   \<and> entries_count (bt_root (snd (btree_delete (insert_all (BTree 4) four_keys) (IntV 4) 4))) = 3"
proof -
  have "\<not> empties_internal_slot (bt_root (insert_all (BTree 4) four_keys)) (IntV 4) 4"
    by code_simp
  then have r: "reachable 4 (snd (btree_delete (insert_all (BTree 4) four_keys) (IntV 4) 4))"
    by (intro reachable.del reachable_insert_all reachable.fresh)
  have l: "btree_len (snd (btree_delete (insert_all (BTree 4) four_keys) (IntV 4) 4)) = 3"
    by code_simp
  show ?thesis using r l C4_len_counts_all_entries [OF r] by simp
qed

text \<open>
  Claim C4 as stated counts the key slots of the leaves only.  A split moves the median
  key with its row ids into the parent, so after inserting 1, 2, 3, 4 into a tree of
  order 4 the root holds key 2: \<open>len\<close> is 4 and the leaves hold 3 row ids.
\<close>

theorem C4_leaf_slots_counterexample:
  "btree_len (insert_all (BTree 4) four_keys) = 4
   \<and> leaf_entries_count (bt_root (insert_all (BTree 4) four_keys)) = 3
   \<and> bt_root (insert_all (BTree 4) four_keys) =
       Node False [IntV 2] [[2]]
         [Node True [IntV 1] [[1]] [], Node True [IntV 3, IntV 4] [[3], [4]] []]"
  by code_simp

text \<open>
  Deleting the only row id of a key held by an internal node pops the key and leaves
  the children as they are; here the root is left without keys, \<open>delete\<close> replaces it
  by its first child, and the keys 3 and 4 are lost.
\<close>

lemma btree_delete_internal_key_loses_entries:
  "snd (btree_delete (insert_all (BTree 4) four_keys) (IntV 2) 2) =
     \<lparr>bt_order = 4, bt_root = Node True [IntV 1] [[1]] [], bt_size = 3\<rparr>
   \<and> search (snd (btree_delete (insert_all (BTree 4) four_keys) (IntV 2) 2)) (IntV 3) = Inr []"
  by code_simp


section \<open>Coercion and comparison of values (datatypes.py)\<close>

definition data_type_name :: "data_type \<Rightarrow> string" where
  "data_type_name t = (case t of INTEGER \<Rightarrow> ''INTEGER'' | TEXT \<Rightarrow> ''TEXT''
                       | REAL \<Rightarrow> ''REAL'' | BOOLEAN \<Rightarrow> ''BOOLEAN'')"

text \<open>
  \<open>validate_and_coerce\<close>.  A \<open>ValueError\<close> of \<open>int(str)\<close> or \<open>float(str)\<close> is caught and
  becomes a \<open>DataTypeError\<close>; the \<open>OverflowError\<close> of \<open>float(int)\<close> is not caught.
\<close>

definition validate_and_coerce ::
  "py_builtins \<Rightarrow> val \<Rightarrow> data_type \<Rightarrow> string option \<Rightarrow> error + val" where
  "validate_and_coerce py v data_type column_name =
     (if v = Null then Inr Null
      else case data_type of
        INTEGER \<Rightarrow>
          (case v of
             BoolV b \<Rightarrow> Inl (DataTypeError ''INTEGER'' v column_name)
           | IntV i \<Rightarrow> Inr v
           | RealV x \<Rightarrow>
               if x = of_int (floor x) then Inr (IntV (floor x))
               else Inl (DataTypeError ''INTEGER'' v column_name)
           | TextV s \<Rightarrow>
               (case py_int py s of
                  Some i \<Rightarrow> Inr (IntV i)
                | None \<Rightarrow> Inl (DataTypeError (data_type_name data_type) v column_name))
           | Null \<Rightarrow> Inr Null)
      | TEXT \<Rightarrow>
          (case v of TextV s \<Rightarrow> Inr v | _ \<Rightarrow> Inr (TextV (py_str py v)))
      | REAL \<Rightarrow>
          (case v of
             BoolV b \<Rightarrow> Inl (DataTypeError ''REAL'' v column_name)
           | IntV i \<Rightarrow>
               (case py_float_of_int py i of
                  Some x \<Rightarrow> Inr (RealV x)
                | None \<Rightarrow> Inl PyOverflowError)
           | RealV x \<Rightarrow> Inr (RealV x)
           | TextV s \<Rightarrow>
               (case py_float py s of
                  Some x \<Rightarrow> Inr (RealV x)
                | None \<Rightarrow> Inl (DataTypeError (data_type_name data_type) v column_name))
           | Null \<Rightarrow> Inr Null)
      | BOOLEAN \<Rightarrow>
          (case v of
             BoolV b \<Rightarrow> Inr v
           | IntV i \<Rightarrow> Inr (BoolV (i \<noteq> 0))
           | TextV s \<Rightarrow>
               if lower s \<in> set [''true'', ''1'', ''yes'', ''on''] then Inr (BoolV True)
               else if lower s \<in> set [''false'', ''0'', ''no'', ''off''] then Inr (BoolV False)
               else Inl (DataTypeError ''BOOLEAN'' v column_name)
           | _ \<Rightarrow> Inl (DataTypeError ''BOOLEAN'' v column_name)))"

text \<open>\<open>compare_values\<close>: \<open>None\<close> is less than any value, otherwise Python's \<open><\<close> and \<open>>\<close>.\<close>

definition compare_values :: "val \<Rightarrow> val \<Rightarrow> error + int" where
  "compare_values left right =
     (if left = Null \<and> right = Null then Inr 0
      else if left = Null then Inr (- 1)
      else if right = Null then Inr 1
      else (case py_less left right of
              Inl e \<Rightarrow> Inl e
            | Inr True \<Rightarrow> Inr (- 1)
            | Inr False \<Rightarrow>
                (case py_less right left of
                   Inl e \<Rightarrow> Inl e
                 | Inr True \<Rightarrow> Inr 1
                 | Inr False \<Rightarrow> Inr 0)))"

text \<open>
  Python's \<open>==\<close> on values (also the equality of set membership): numbers compare by
  value across \<open>int\<close>, \<open>float\<close> and \<open>bool\<close>; otherwise equal values of one kind.
\<close>

definition py_eq :: "val \<Rightarrow> val \<Rightarrow> bool" where
  "py_eq a b = (case (num_of a, num_of b) of (Some x, Some y) \<Rightarrow> x = y | _ \<Rightarrow> a = b)"

section \<open>Schema and catalog (schema.py)\<close>

datatype column =
  ColumnData (col_name: string) (col_data_type: data_type) (col_primary_key: bool)
             (col_unique: bool) (col_not_null: bool)

text \<open>The constructor with its \<open>__post_init__\<close>: a primary key is unique and not null.\<close>

definition Column :: "string \<Rightarrow> data_type \<Rightarrow> bool \<Rightarrow> bool \<Rightarrow> bool \<Rightarrow> column" where
  "Column name data_type primary_key unique not_null =
     ColumnData name data_type primary_key (primary_key \<or> unique) (primary_key \<or> not_null)"

datatype table_schema = SchemaData (schema_name: string) (schema_columns: "column list")

text \<open>\<open>TableSchema.__post_init__\<close> raises \<open>ValueError\<close> on a second primary key.\<close>

definition TableSchema :: "string \<Rightarrow> column list \<Rightarrow> error + table_schema" where
  "TableSchema name columns =
     (if length (filter col_primary_key columns) > 1 then Inl PyValueError
      else Inr (SchemaData name columns))"

text \<open>
  A Python \<open>dict\<close> is an association list in insertion order: assigning to a present
  key keeps its position, a new key goes to the end.
\<close>

definition dict_of :: "('k \<times> 'v) list \<Rightarrow> ('k \<times> 'v) list" where
  "dict_of kvs = foldl (\<lambda>d (k, v). AList.update k v d) [] kvs"

definition column_map :: "table_schema \<Rightarrow> (string \<times> column) list" where
  "column_map s = dict_of (map (\<lambda>c. (lower (col_name c), c)) (schema_columns s))"

definition primary_key :: "table_schema \<Rightarrow> column option" where
  "primary_key s = (case filter col_primary_key (schema_columns s) of [] \<Rightarrow> None | c # _ \<Rightarrow> Some c)"

definition get_column :: "table_schema \<Rightarrow> string \<Rightarrow> error + column" where
  "get_column s name =
     (case map_of (column_map s) (lower name) of
        None \<Rightarrow> Inl (ColumnNotFoundError name (Some (schema_name s)))
      | Some c \<Rightarrow> Inr c)"

definition column_names :: "table_schema \<Rightarrow> string list" where
  "column_names s = map col_name (schema_columns s)"

section \<open>Index manager (index.py)\<close>

type_synonym index_manager = "(string \<times> btree) list"

text \<open>
  The truth value of a \<open>BTree\<close> object.  The class defines \<open>__len__\<close> and no
  \<open>__bool__\<close>, so \<open>if index:\<close> is false for \<open>None\<close> and for a tree whose \<open>len\<close> is 0.
\<close>

definition truthy_index :: "btree option \<Rightarrow> bool" where
  "truthy_index index = (case index of None \<Rightarrow> False | Some t \<Rightarrow> btree_len t \<noteq> 0)"

definition create_index :: "index_manager \<Rightarrow> string \<Rightarrow> nat \<Rightarrow> index_manager" where
  "create_index im column_name order =
     (if map_of im (lower column_name) \<noteq> None then im
      else AList.update (lower column_name) (BTree order) im)"

definition get_index :: "index_manager \<Rightarrow> string \<Rightarrow> btree option" where
  "get_index im column_name = map_of im (lower column_name)"

definition has_index :: "index_manager \<Rightarrow> string \<Rightarrow> bool" where
  "has_index im column_name = (map_of im (lower column_name) \<noteq> None)"

definition im_insert :: "index_manager \<Rightarrow> string \<Rightarrow> val \<Rightarrow> nat \<Rightarrow> error option \<times> index_manager" where
  "im_insert im column_name key row_id =
     (let index = map_of im (lower column_name) in
      if truthy_index index
      then (case btree_insert (the index) key row_id of
              (eo, t1) \<Rightarrow> (eo, AList.update (lower column_name) t1 im))
      else (None, im))"

definition im_delete :: "index_manager \<Rightarrow> string \<Rightarrow> val \<Rightarrow> nat \<Rightarrow> error option \<times> index_manager" where
  "im_delete im column_name key row_id =
     (let index = map_of im (lower column_name) in
      if truthy_index index
      then (case btree_delete (the index) key row_id of
              (Inl e, t1) \<Rightarrow> (Some e, AList.update (lower column_name) t1 im)
            | (Inr _, t1) \<Rightarrow> (None, AList.update (lower column_name) t1 im))
      else (None, im))"

text \<open>\<open>IndexManager.search\<close> returns a list of row ids, or \<open>None\<close>.\<close>

definition im_search :: "index_manager \<Rightarrow> string \<Rightarrow> val \<Rightarrow> error + nat list option" where
  "im_search im column_name key =
     (let index = map_of im (lower column_name) in
      if truthy_index index
      then (case search (the index) key of Inl e \<Rightarrow> Inl e | Inr rs \<Rightarrow> Inr (Some rs))
      else Inr None)"


section \<open>Table storage (storage.py)\<close>

datatype row = Row (row_id: nat) (row_data: "(string \<times> val) list")

record table =
  tbl_schema :: table_schema
  tbl_rows :: "(nat \<times> row) list"
  tbl_next_row_id :: nat
  tbl_index_manager :: index_manager
  tbl_unique_values :: "(string \<times> val set) list"

text \<open>Membership, \<open>add\<close> and \<open>discard\<close> of a Python set of values.\<close>

definition py_in :: "val \<Rightarrow> val set \<Rightarrow> bool" where
  "py_in v S = (\<exists>x\<in>S. py_eq v x)"

definition set_add :: "val set \<Rightarrow> val \<Rightarrow> val set" where
  "set_add S v = (if py_in v S then S else insert v S)"

definition set_discard :: "val set \<Rightarrow> val \<Rightarrow> val set" where
  "set_discard S v = Set.filter (\<lambda>x. \<not> py_eq x v) S"

text \<open>The indexes a table creates: on the primary key, then on the other unique columns.\<close>

definition initial_indexes :: "table_schema \<Rightarrow> index_manager" where
  "initial_indexes s =
     (let im0 = (case primary_key s of None \<Rightarrow> [] | Some pk \<Rightarrow> create_index [] (col_name pk) 32)
      in foldl (\<lambda>im col. if col_unique col \<and> \<not> col_primary_key col
                          then create_index im (col_name col) 32 else im)
           im0 (schema_columns s))"

definition Table :: "table_schema \<Rightarrow> table" where
  "Table s =
     \<lparr>tbl_schema = s, tbl_rows = [], tbl_next_row_id = 1,
      tbl_index_manager = initial_indexes s,
      tbl_unique_values =
        dict_of (map (\<lambda>col. (lower (col_name col), {})) (filter col_unique (schema_columns s)))\<rparr>"

definition normalize :: "(string \<times> val) list \<Rightarrow> (string \<times> val) list" where
  "normalize vals = dict_of (map (\<lambda>(k, v). (lower k, v)) vals)"

text \<open>\<open>d.get(k)\<close> on a dictionary of values: \<open>None\<close> when the key is absent.\<close>

definition dict_get :: "(string \<times> val) list \<Rightarrow> string \<Rightarrow> val" where
  "dict_get d k = (case map_of d k of None \<Rightarrow> Null | Some v \<Rightarrow> v)"

text \<open>The validation loop of \<open>Table.insert\<close>, building \<open>row_data\<close>; nothing is mutated.\<close>

fun insert_validate ::
  "py_builtins \<Rightarrow> table \<Rightarrow> (string \<times> val) list \<Rightarrow> column list \<Rightarrow> (string \<times> val) list
   \<Rightarrow> error + (string \<times> val) list" where
  "insert_validate py t normalized [] rdata = Inr rdata"
| "insert_validate py t normalized (col # cols) rdata =
     (let cname = lower (col_name col);
          v = dict_get normalized cname
      in if v = Null \<and> col_not_null col then Inl (NotNullViolation (col_name col))
         else
           (case (if v \<noteq> Null
                  then validate_and_coerce py v (col_data_type col) (Some (col_name col))
                  else Inr v) of
              Inl e \<Rightarrow> Inl e
            | Inr v1 \<Rightarrow>
                if col_unique col \<and> v1 \<noteq> Null then
                  (case map_of (tbl_unique_values t) cname of
                     None \<Rightarrow> Inl PyKeyError
                   | Some S \<Rightarrow>
                       if py_in v1 S then
                         (if col_primary_key col
                          then Inl (PrimaryKeyViolation (col_name col) v1)
                          else Inl (UniqueViolation (col_name col) v1))
                       else insert_validate py t normalized cols (AList.update cname v1 rdata))
                else insert_validate py t normalized cols (AList.update cname v1 rdata)))"

text \<open>The loop that adds the new row's values to the unique-value sets.\<close>

fun add_unique_values ::
  "(string \<times> val set) list \<Rightarrow> (string \<times> val) list \<Rightarrow> column list
   \<Rightarrow> error option \<times> (string \<times> val set) list" where
  "add_unique_values uv rdata [] = (None, uv)"
| "add_unique_values uv rdata (col # cols) =
     (if col_unique col \<and> dict_get rdata (lower (col_name col)) \<noteq> Null then
        (case map_of uv (lower (col_name col)) of
           None \<Rightarrow> (Some PyKeyError, uv)
         | Some S \<Rightarrow>
             add_unique_values
               (AList.update (lower (col_name col))
                  (set_add S (dict_get rdata (lower (col_name col)))) uv)
               rdata cols)
      else add_unique_values uv rdata cols)"

text \<open>The loop over \<open>row_data.items()\<close> that inserts into the indexes.\<close>

fun index_insert_all ::
  "index_manager \<Rightarrow> (string \<times> val) list \<Rightarrow> nat \<Rightarrow> error option \<times> index_manager" where
  "index_insert_all im [] rid = (None, im)"
| "index_insert_all im ((cname, v) # items) rid =
     (if v \<noteq> Null then
        (case im_insert im cname v rid of
           (Some e, im1) \<Rightarrow> (Some e, im1)
         | (None, im1) \<Rightarrow> index_insert_all im1 items rid)
      else index_insert_all im items rid)"

fun index_delete_all ::
  "index_manager \<Rightarrow> (string \<times> val) list \<Rightarrow> nat \<Rightarrow> error option \<times> index_manager" where
  "index_delete_all im [] rid = (None, im)"
| "index_delete_all im ((cname, v) # items) rid =
     (if v \<noteq> Null then
        (case im_delete im cname v rid of
           (Some e, im1) \<Rightarrow> (Some e, im1)
         | (None, im1) \<Rightarrow> index_delete_all im1 items rid)
      else index_delete_all im items rid)"

text \<open>
  \<open>Table.insert\<close>: the new row or the exception raised, and the table as the call
  leaves it.
\<close>

definition table_insert ::
  "py_builtins \<Rightarrow> table \<Rightarrow> (string \<times> val) list \<Rightarrow> (error + row) \<times> table" where
  "table_insert py t vals =
     (case insert_validate py t (normalize vals) (schema_columns (tbl_schema t)) [] of
        Inl e \<Rightarrow> (Inl e, t)
      | Inr rdata \<Rightarrow>
          let rid = tbl_next_row_id t;
              new_row = Row rid rdata;
              t1 = t\<lparr>tbl_next_row_id := rid + 1,
                     tbl_rows := AList.update rid new_row (tbl_rows t)\<rparr>
          in (case add_unique_values (tbl_unique_values t1) rdata
                       (schema_columns (tbl_schema t)) of
                (Some e, uv) \<Rightarrow> (Inl e, t1\<lparr>tbl_unique_values := uv\<rparr>)
              | (None, uv) \<Rightarrow>
                  (case index_insert_all (tbl_index_manager t1) rdata rid of
                     (Some e, im) \<Rightarrow>
                       (Inl e, t1\<lparr>tbl_unique_values := uv, tbl_index_manager := im\<rparr>)
                   | (None, im) \<Rightarrow>
                       (Inr new_row, t1\<lparr>tbl_unique_values := uv, tbl_index_manager := im\<rparr>))))"

text \<open>
  The validation loop of \<open>Table.update\<close> over \<open>normalized.items()\<close>; it stores the
  coerced values back into \<open>normalized\<close> and mutates nothing else.
\<close>

fun update_validate ::
  "py_builtins \<Rightarrow> table \<Rightarrow> row \<Rightarrow> (string \<times> val) list \<Rightarrow> (string \<times> val) list
   \<Rightarrow> error + (string \<times> val) list" where
  "update_validate py t r [] normalized = Inr normalized"
| "update_validate py t r ((cname, new_value) # items) normalized =
     (case get_column (tbl_schema t) cname of
        Inl e \<Rightarrow> Inl e
      | Inr col \<Rightarrow>
          let old_value = dict_get (row_data r) cname in
          if new_value = Null \<and> col_not_null col then Inl (NotNullViolation (col_name col))
          else
            (case (if new_value \<noteq> Null
                   then validate_and_coerce py new_value (col_data_type col) (Some (col_name col))
                   else Inr new_value) of
               Inl e \<Rightarrow> Inl e
             | Inr v1 \<Rightarrow>
                 let normalized1 = (if new_value \<noteq> Null then AList.update cname v1 normalized
                                    else normalized) in
                 if col_unique col \<and> v1 \<noteq> Null \<and> \<not> py_eq v1 old_value then
                   (case map_of (tbl_unique_values t) cname of
                      None \<Rightarrow> Inl PyKeyError
                    | Some S \<Rightarrow>
                        if py_in v1 S then
                          (if col_primary_key col
                           then Inl (PrimaryKeyViolation (col_name col) v1)
                           else Inl (UniqueViolation (col_name col) v1))
                        else update_validate py t r items normalized1)
                 else update_validate py t r items normalized1))"

text \<open>One column of the apply loop of \<open>Table.update\<close>: the unique-value set.\<close>

definition update_unique_set ::
  "(string \<times> val set) list \<Rightarrow> column \<Rightarrow> string \<Rightarrow> val \<Rightarrow> val
   \<Rightarrow> error + (string \<times> val set) list" where
  "update_unique_set uv col cname old_value new_value =
     (if col_unique col \<and> (old_value \<noteq> Null \<or> new_value \<noteq> Null) then
        (case map_of uv cname of
           None \<Rightarrow> Inl PyKeyError
         | Some S \<Rightarrow>
             let S1 = (if old_value \<noteq> Null then set_discard S old_value else S);
                 S2 = (if new_value \<noteq> Null then set_add S1 new_value else S1)
             in Inr (AList.update cname S2 uv))
      else Inr uv)"

text \<open>One column of the apply loop of \<open>Table.update\<close>: the index.\<close>

definition update_index ::
  "index_manager \<Rightarrow> string \<Rightarrow> val \<Rightarrow> val \<Rightarrow> nat \<Rightarrow> error option \<times> index_manager" where
  "update_index im cname old_value new_value rid =
     (case (if old_value \<noteq> Null then im_delete im cname old_value rid else (None, im)) of
        (Some e, im1) \<Rightarrow> (Some e, im1)
      | (None, im1) \<Rightarrow>
          (if new_value \<noteq> Null then im_insert im1 cname new_value rid else (None, im1)))"

text \<open>The apply loop of \<open>Table.update\<close> for the row with id \<open>rid\<close>.\<close>

fun update_apply ::
  "table \<Rightarrow> nat \<Rightarrow> (string \<times> val) list \<Rightarrow> error option \<times> table" where
  "update_apply t rid [] = (None, t)"
| "update_apply t rid ((cname, new_value) # items) =
     (case get_column (tbl_schema t) cname of
        Inl e \<Rightarrow> (Some e, t)
      | Inr col \<Rightarrow>
          (case map_of (tbl_rows t) rid of
             None \<Rightarrow> (Some PyKeyError, t)
           | Some r \<Rightarrow>
               (case update_unique_set (tbl_unique_values t) col cname
                       (dict_get (row_data r) cname) new_value of
                  Inl e \<Rightarrow> (Some e, t)
                | Inr uv \<Rightarrow>
                    (case update_index (tbl_index_manager t) cname
                            (dict_get (row_data r) cname) new_value rid of
                       (Some e, im) \<Rightarrow>
                         (Some e, t\<lparr>tbl_unique_values := uv, tbl_index_manager := im\<rparr>)
                     | (None, im) \<Rightarrow>
                         update_apply
                           (t\<lparr>tbl_unique_values := uv, tbl_index_manager := im,
                              tbl_rows := AList.update rid
                                (Row rid (AList.update cname new_value (row_data r)))
                                (tbl_rows t)\<rparr>)
                           rid items))))"

definition table_update ::
  "py_builtins \<Rightarrow> table \<Rightarrow> nat \<Rightarrow> (string \<times> val) list \<Rightarrow> (error + row option) \<times> table" where
  "table_update py t rid vals =
     (case map_of (tbl_rows t) rid of
        None \<Rightarrow> (Inr None, t)
      | Some r \<Rightarrow>
          (case update_validate py t r (normalize vals) (normalize vals) of
             Inl e \<Rightarrow> (Inl e, t)
           | Inr normalized \<Rightarrow>
               (case update_apply t rid normalized of
                  (Some e, t1) \<Rightarrow> (Inl e, t1)
                | (None, t1) \<Rightarrow> (Inr (map_of (tbl_rows t1) rid), t1))))"

text \<open>The loop of \<open>Table.delete\<close> that strips the row's values from the unique sets.\<close>

fun discard_unique_values ::
  "(string \<times> val set) list \<Rightarrow> (string \<times> val) list \<Rightarrow> column list
   \<Rightarrow> error option \<times> (string \<times> val set) list" where
  "discard_unique_values uv rdata [] = (None, uv)"
| "discard_unique_values uv rdata (col # cols) =
     (if col_unique col \<and> dict_get rdata (lower (col_name col)) \<noteq> Null then
        (case map_of uv (lower (col_name col)) of
           None \<Rightarrow> (Some PyKeyError, uv)
         | Some S \<Rightarrow>
             discard_unique_values
               (AList.update (lower (col_name col))
                  (set_discard S (dict_get rdata (lower (col_name col)))) uv)
               rdata cols)
      else discard_unique_values uv rdata cols)"

definition table_delete :: "table \<Rightarrow> nat \<Rightarrow> (error + row option) \<times> table" where
  "table_delete t rid =
     (case map_of (tbl_rows t) rid of
        None \<Rightarrow> (Inr None, t)
      | Some r \<Rightarrow>
          (let t1 = t\<lparr>tbl_rows := AList.delete rid (tbl_rows t)\<rparr> in
           (case discard_unique_values (tbl_unique_values t1) (row_data r)
                   (schema_columns (tbl_schema t)) of
              (Some e, uv) \<Rightarrow> (Inl e, t1\<lparr>tbl_unique_values := uv\<rparr>)
            | (None, uv) \<Rightarrow>
                (case index_delete_all (tbl_index_manager t1) (row_data r) rid of
                   (Some e, im) \<Rightarrow> (Inl e, t1\<lparr>tbl_unique_values := uv, tbl_index_manager := im\<rparr>)
                 | (None, im) \<Rightarrow>
                     (Inr (Some r), t1\<lparr>tbl_unique_values := uv, tbl_index_manager := im\<rparr>)))))"

definition table_get :: "table \<Rightarrow> nat \<Rightarrow> row option" where
  "table_get t rid = map_of (tbl_rows t) rid"

definition scan :: "table \<Rightarrow> row list" where
  "scan t = map snd (tbl_rows t)"

definition table_count :: "table \<Rightarrow> nat" where
  "table_count t = length (tbl_rows t)"

definition table_clear :: "table \<Rightarrow> table" where
  "table_clear t =
     t\<lparr>tbl_rows := [], tbl_next_row_id := 1,
       tbl_unique_values := map (\<lambda>(k, S). (k, {})) (tbl_unique_values t),
       tbl_index_manager := initial_indexes (tbl_schema t)\<rparr>"

text \<open>
  \<open>find_by_index\<close>: the rows of the ids the index returns, or a full scan when
  \<open>IndexManager.search\<close> returns \<open>None\<close>.
\<close>

definition find_by_index :: "table \<Rightarrow> string \<Rightarrow> val \<Rightarrow> error + row list" where
  "find_by_index t column_name v =
     (case im_search (tbl_index_manager t) column_name v of
        Inl e \<Rightarrow> Inl e
      | Inr None \<Rightarrow>
          Inr (filter (\<lambda>r. py_eq (dict_get (row_data r) (lower column_name)) v) (scan t))
      | Inr (Some rids) \<Rightarrow>
          Inr (map (\<lambda>rid. the (map_of (tbl_rows t) rid))
                 (filter (\<lambda>rid. map_of (tbl_rows t) rid \<noteq> None) rids)))"


end
